theory Spec2Isabelle
  imports Main "HOL-Library.Sublist"
begin

section \<open>Strings\<close>

text \<open>
  A Python \<open>str\<close> is a sequence of Unicode code points, so a string of the crawler is a
  list of code points (natural numbers). \<open>lit\<close> turns an ASCII literal into such a string.
  The substring test \<open>a in b\<close> of Python is \<open>sublist a b\<close>.
\<close>

type_synonym pystr = "nat list"

definition lit :: "string \<Rightarrow> pystr" where
  "lit s = map of_char s"

definition upper_char :: "nat \<Rightarrow> bool" where
  "upper_char c = (65 \<le> c \<and> c \<le> 90)"

definition lower_char :: "nat \<Rightarrow> bool" where
  "lower_char c = (97 \<le> c \<and> c \<le> 122)"

definition digit_char :: "nat \<Rightarrow> bool" where
  "digit_char c = (48 \<le> c \<and> c \<le> 57)"

text \<open>
  \<open>str.lower()\<close> on ASCII: \<open>A\<close>..\<open>Z\<close> move to \<open>a\<close>..\<open>z\<close>. The crawler lowers only
  strings the email pattern matched, and those hold ASCII characters only
  (lemma \<open>findall_ascii\<close> below), so other code points are left as they are here.
\<close>

definition lower :: "pystr \<Rightarrow> pystr" where
  "lower s = map (\<lambda>c. if upper_char c then c + 32 else c) s"

section \<open>The email pattern\<close>

text \<open>
  \<^verbatim>\<open>
  self.email_pattern = re.compile(
      r'\b[A-Za-z0-9._%+-]+@[A-Za-z0-9.-]+\.[A-Z|a-z]{2,}\b'
  )
  \<close>
  The three character classes of the pattern, by code point. Inside a class the bar is a
  literal character, so the last class holds \<open>|\<close> (124) beside the letters.
\<close>

definition local_char :: "nat \<Rightarrow> bool" where
  "local_char c =
     (upper_char c \<or> lower_char c \<or> digit_char c \<or>
      c = 46 \<or> c = 95 \<or> c = 37 \<or> c = 43 \<or> c = 45)"

definition domain_char :: "nat \<Rightarrow> bool" where
  "domain_char c = (upper_char c \<or> lower_char c \<or> digit_char c \<or> c = 46 \<or> c = 45)"

definition tld_char :: "nat \<Rightarrow> bool" where
  "tld_char c = (upper_char c \<or> c = 124 \<or> lower_char c)"

text \<open>
  \<open>\b\<close> is the boundary between a word character and a non-word character (or an end of the
  string). For a \<open>str\<close> pattern a word character is one with \<open>isalnum()\<close>, or the underscore.
  On ASCII that is letters, digits and \<open>_\<close>; above ASCII it is a table of the Unicode database,
  which is not part of the repository and is the parameter \<open>alnum\<close> of the matcher.
\<close>

definition word_char :: "(nat \<Rightarrow> bool) \<Rightarrow> nat \<Rightarrow> bool" where
  "word_char alnum c =
     (if c < 128 then upper_char c \<or> lower_char c \<or> digit_char c \<or> c = 95 else alnum c)"

definition char_at :: "pystr \<Rightarrow> nat \<Rightarrow> nat option" where
  "char_at s p = (if p < length s then Some (s ! p) else None)"

definition word_at :: "(nat \<Rightarrow> bool) \<Rightarrow> pystr \<Rightarrow> nat \<Rightarrow> bool" where
  "word_at alnum s p = (case char_at s p of None \<Rightarrow> False | Some c \<Rightarrow> word_char alnum c)"

definition boundary :: "(nat \<Rightarrow> bool) \<Rightarrow> pystr \<Rightarrow> nat \<Rightarrow> bool" where
  "boundary alnum s p = ((0 < p \<and> word_at alnum s (p - 1)) \<noteq> word_at alnum s p)"

text \<open>The length of the longest run of characters of a class that starts at position \<open>p\<close>.\<close>

definition run :: "(nat \<Rightarrow> bool) \<Rightarrow> pystr \<Rightarrow> nat \<Rightarrow> nat" where
  "run cls s p = length (takeWhile cls (drop p s))"

text \<open>
  The backtracking match, one function per greedy repetition. Each takes the position where
  its repetition starts and the number of characters the repetition consumes; it tries that
  number first and then every shorter one, as the regex engine gives characters back one at
  a time. The result is the position where the whole match ends.

  \<open>tld_match\<close>: \<open>[A-Z|a-z]{2,}\b\<close>, at least two characters and then a boundary.
\<close>

fun tld_match :: "(nat \<Rightarrow> bool) \<Rightarrow> pystr \<Rightarrow> nat \<Rightarrow> nat \<Rightarrow> nat option" where
  "tld_match alnum s p 0 = None"
| "tld_match alnum s p (Suc j) =
     (if Suc j < 2 then None
      else if boundary alnum s (p + Suc j) then Some (p + Suc j)
      else tld_match alnum s p j)"

text \<open>\<open>domain_match\<close>: \<open>[A-Za-z0-9.-]+\.\<close> and then the rest of the pattern.\<close>

fun domain_match :: "(nat \<Rightarrow> bool) \<Rightarrow> pystr \<Rightarrow> nat \<Rightarrow> nat \<Rightarrow> nat option" where
  "domain_match alnum s p 0 = None"
| "domain_match alnum s p (Suc k) =
     (if char_at s (p + Suc k) = Some 46 then
        (case tld_match alnum s (p + Suc k + 1) (run tld_char s (p + Suc k + 1)) of
           Some e \<Rightarrow> Some e
         | None \<Rightarrow> domain_match alnum s p k)
      else domain_match alnum s p k)"

text \<open>\<open>local_match\<close>: \<open>[A-Za-z0-9._%+-]+@\<close> and then the rest of the pattern.\<close>

fun local_match :: "(nat \<Rightarrow> bool) \<Rightarrow> pystr \<Rightarrow> nat \<Rightarrow> nat \<Rightarrow> nat option" where
  "local_match alnum s p 0 = None"
| "local_match alnum s p (Suc n) =
     (if char_at s (p + Suc n) = Some 64 then
        (case domain_match alnum s (p + Suc n + 1) (run domain_char s (p + Suc n + 1)) of
           Some e \<Rightarrow> Some e
         | None \<Rightarrow> local_match alnum s p n)
      else local_match alnum s p n)"

text \<open>The whole pattern tried at position \<open>p\<close>: the leading \<open>\b\<close>, then the rest.\<close>

definition match_at :: "(nat \<Rightarrow> bool) \<Rightarrow> pystr \<Rightarrow> nat \<Rightarrow> nat option" where
  "match_at alnum s p =
     (if boundary alnum s p then local_match alnum s p (run local_char s p) else None)"

lemma tld_match_bounds: "tld_match alnum s p j = Some e \<Longrightarrow> p + 2 \<le> e \<and> e \<le> p + j"
  by (induction j) (auto split: if_splits)

lemma domain_match_bounds: "domain_match alnum s p k = Some e \<Longrightarrow> p + 4 \<le> e"
  by (induction k) (auto split: if_splits option.splits dest!: tld_match_bounds)

lemma local_match_bounds: "local_match alnum s p n = Some e \<Longrightarrow> p + 6 \<le> e"
  by (induction n) (auto split: if_splits option.splits dest!: domain_match_bounds)

lemma match_at_bounds: "match_at alnum s p = Some e \<Longrightarrow> p < e"
  by (auto simp: match_at_def split: if_splits dest!: local_match_bounds)

text \<open>
  \<open>finditer\<close>: the scan of \<open>pattern.findall\<close>. It tries the pattern at each position from the
  left; a match is recorded as its span and the scan goes on where the match ended, so the
  matches do not overlap. \<open>findall\<close> returns the matched substrings.
\<close>

function finditer :: "(nat \<Rightarrow> bool) \<Rightarrow> pystr \<Rightarrow> nat \<Rightarrow> (nat \<times> nat) list" where
  "finditer alnum s p =
     (if length s \<le> p then []
      else (case match_at alnum s p of
              Some e \<Rightarrow> (p, e) # finditer alnum s e
            | None \<Rightarrow> finditer alnum s (p + 1)))"
  by pat_completeness auto
termination
  by (relation "measure (\<lambda>(alnum, s, p). length s - p)") (auto dest: match_at_bounds)

declare finditer.simps [simp del]

definition slice :: "pystr \<Rightarrow> nat \<times> nat \<Rightarrow> pystr" where
  "slice s span = take (snd span - fst span) (drop (fst span) s)"

definition findall :: "(nat \<Rightarrow> bool) \<Rightarrow> pystr \<Rightarrow> pystr list" where
  "findall alnum s = map (slice s) (finditer alnum s 0)"

section \<open>The browser\<close>

text \<open>
  Every call on the Selenium driver or on one of its elements either returns a value or
  raises. The handlers of the crawler are all \<open>except Exception\<close>, so two kinds of raise
  must be told apart:
  \<^item> \<open>Raises\<close>: an exception that derives from \<open>Exception\<close> (a WebDriver error, a timeout,
    an \<open>AttributeError\<close>), which \<open>except Exception\<close> catches;
  \<^item> \<open>Interrupts\<close>: an exception that derives from \<open>BaseException\<close> only
    (\<open>KeyboardInterrupt\<close>, \<open>SystemExit\<close>), which \<open>except Exception\<close> lets through, and which
    \<open>main\<close> expects (\<open>except KeyboardInterrupt\<close>).
\<close>

datatype 'a outcome = Raises | Interrupts | Returns 'a

text \<open>
  An element of a page, as far as the crawler reads it: \<open>elem.text\<close>,
  \<open>elem.get_attribute('href')\<close> (which may be \<open>None\<close>) and \<open>elem.click()\<close>, which leaves
  the browser on a page, named by its number.
\<close>

record element =
  elem_text :: "pystr outcome"
  elem_href :: "pystr option outcome"
  elem_click :: "nat outcome"

text \<open>
  A rendered page, as far as the crawler reads it: the answers of the three
  \<open>find_elements\<close> queries and \<open>driver.page_source\<close>.
  \<^item> \<open>phone_elements\<close>: \<^verbatim>\<open>find_elements(By.CSS_SELECTOR, '.tel, .phone, [class*="tel"]')\<close>
  \<^item> \<open>homepage_elements\<close>: \<^verbatim>\<open>find_elements(By.CSS_SELECTOR, 'a[href*="http"]')\<close>
  \<^item> \<open>contact_links\<close>: the XPath query for anchors whose text contains one of the
    contact labels.
\<close>

record page =
  phone_elements :: "element list outcome"
  homepage_elements :: "element list outcome"
  contact_links :: "element list outcome"
  page_source :: "pystr outcome"

text \<open>
  The driver and the web behind it: \<open>driver_get url\<close> is the page that \<open>driver.get(url)\<close>
  and the \<open>time.sleep(2)\<close> after it leave the browser on (or how the two raise; an
  interrupt during the sleep is an \<open>Interrupts\<close>), \<open>shown\<close> is the content of each page.
  In the same way \<open>elem_click\<close> stands for the click and the sleep after it.
\<close>

record driver =
  driver_get :: "pystr \<Rightarrow> nat outcome"
  shown :: "nat \<Rightarrow> page"

text \<open>
  What has been done on a crawler, in order: the calls of its two resolver methods and the
  navigations and clicks of its browser. The crawler object itself holds the driver
  (\<open>None\<close> until \<open>setup_selenium\<close> has run) and this record of events.
\<close>

datatype event =
  Invoke_search pystr
| Invoke_website "pystr option"
| Navigate pystr
| Click

record crawler =
  driver :: "driver option"
  trace :: "event list"

definition note_event :: "event \<Rightarrow> crawler \<Rightarrow> crawler" where
  "note_event ev self = self\<lparr>trace := trace self @ [ev]\<rparr>"

text \<open>\<open>self.driver.get(url)\<close>. With no driver the attribute lookup on \<open>None\<close> raises.\<close>

definition navigate :: "crawler \<Rightarrow> pystr \<Rightarrow> page outcome \<times> crawler" where
  "navigate self url =
     (case driver self of
        None \<Rightarrow> (Raises, self)
      | Some d \<Rightarrow>
          (case driver_get d url of
             Raises \<Rightarrow> (Raises, note_event (Navigate url) self)
           | Interrupts \<Rightarrow> (Interrupts, note_event (Navigate url) self)
           | Returns n \<Rightarrow> (Returns (shown d n), note_event (Navigate url) self)))"

text \<open>\<open>elem.click()\<close>, and the page the browser shows afterwards.\<close>

definition click :: "crawler \<Rightarrow> element \<Rightarrow> page outcome \<times> crawler" where
  "click self elem =
     (case driver self of
        None \<Rightarrow> (Raises, self)
      | Some d \<Rightarrow>
          (case elem_click elem of
             Raises \<Rightarrow> (Raises, note_event Click self)
           | Interrupts \<Rightarrow> (Interrupts, note_event Click self)
           | Returns n \<Rightarrow> (Returns (shown d n), note_event Click self)))"

text \<open>The truth value of \<open>None\<close> and of the empty string is false.\<close>

definition truthy :: "pystr option \<Rightarrow> bool" where
  "truthy v = (case v of None \<Rightarrow> False | Some s \<Rightarrow> s \<noteq> [])"

text \<open>\<open>str.strip()\<close>: the code points with \<open>isspace()\<close> are removed from both ends.\<close>

definition space_char :: "nat \<Rightarrow> bool" where
  "space_char c =
     ((9 \<le> c \<and> c \<le> 13) \<or> (28 \<le> c \<and> c \<le> 32) \<or> c = 133 \<or> c = 160 \<or> c = 5760 \<or>
      (8192 \<le> c \<and> c \<le> 8202) \<or> c = 8232 \<or> c = 8233 \<or> c = 8239 \<or> c = 8287 \<or> c = 12288)"

definition strip :: "pystr \<Rightarrow> pystr" where
  "strip s = rev (dropWhile space_char (rev (dropWhile space_char s)))"

section \<open>The search stage\<close>

record naver_result =
  nr_email :: "pystr option"
  nr_homepage :: "pystr option"
  nr_phone :: "pystr option"

definition no_result :: naver_result where
  "no_result = \<lparr>nr_email = None, nr_homepage = None, nr_phone = None\<rparr>"

text \<open>
  \<^verbatim>\<open>
  phone_elements = self.driver.find_elements(By.CSS_SELECTOR, '.tel, .phone, [class*="tel"]')
  if phone_elements:
      result['phone'] = phone_elements[0].text.strip()
  \<close>
\<close>

definition phone_step :: "page \<Rightarrow> naver_result \<Rightarrow> naver_result outcome" where
  "phone_step p result =
     (case phone_elements p of
        Raises \<Rightarrow> Raises
      | Interrupts \<Rightarrow> Interrupts
      | Returns [] \<Rightarrow> Returns result
      | Returns (e # _) \<Rightarrow>
          (case elem_text e of
             Raises \<Rightarrow> Raises
           | Interrupts \<Rightarrow> Interrupts
           | Returns t \<Rightarrow> Returns (result\<lparr>nr_phone := Some (strip t)\<rparr>)))"

text \<open>
  \<^verbatim>\<open>
  for elem in homepage_elements:
      href = elem.get_attribute('href')
      if href and 'naver.com' not in href and 'google.com' not in href:
          result['homepage'] = href
          break
  \<close>
\<close>

definition portal_free :: "pystr \<Rightarrow> bool" where
  "portal_free s = (\<not> sublist (lit ''naver.com'') s \<and> \<not> sublist (lit ''google.com'') s)"

fun first_homepage :: "element list \<Rightarrow> pystr option outcome" where
  "first_homepage [] = Returns None"
| "first_homepage (elem # elems) =
     (case elem_href elem of
        Raises \<Rightarrow> Raises
      | Interrupts \<Rightarrow> Interrupts
      | Returns href \<Rightarrow>
          (if truthy href \<and> portal_free (the href) then Returns href
           else first_homepage elems))"

definition homepage_step :: "page \<Rightarrow> naver_result \<Rightarrow> naver_result outcome" where
  "homepage_step p result =
     (case homepage_elements p of
        Raises \<Rightarrow> Raises
      | Interrupts \<Rightarrow> Interrupts
      | Returns elems \<Rightarrow>
          (case first_homepage elems of
             Raises \<Rightarrow> Raises
           | Interrupts \<Rightarrow> Interrupts
           | Returns None \<Rightarrow> Returns result
           | Returns (Some href) \<Rightarrow> Returns (result\<lparr>nr_homepage := Some href\<rparr>)))"

text \<open>
  \<^verbatim>\<open>
  page_source = self.driver.page_source
  emails = self.email_pattern.findall(page_source)
  valid_emails = [
      email for email in emails
      if 'naver.com' not in email and 'google.com' not in email
  ]
  if valid_emails:
      result['email'] = valid_emails[0]
  \<close>
\<close>

definition valid_emails :: "pystr list \<Rightarrow> pystr list" where
  "valid_emails emails = filter portal_free emails"

definition email_step :: "(nat \<Rightarrow> bool) \<Rightarrow> page \<Rightarrow> naver_result \<Rightarrow> naver_result outcome" where
  "email_step alnum p result =
     (case page_source p of
        Raises \<Rightarrow> Raises
      | Interrupts \<Rightarrow> Interrupts
      | Returns src \<Rightarrow>
          (case valid_emails (findall alnum src) of
             [] \<Rightarrow> Returns result
           | e # _ \<Rightarrow> Returns (result\<lparr>nr_email := Some e\<rparr>)))"

text \<open>
  The inner \<open>try\<close> block of \<open>search_naver_place\<close>: the three steps in order on the loaded
  page. \<open>place_info\<close> is the dictionary \<open>result\<close> as it stands when control leaves the
  block: a step that raises ends the block and leaves \<open>result\<close> as the steps before it
  made it. Its \<open>except Exception\<close> logs a warning and goes on to \<open>return result\<close>.
\<close>

definition place_info :: "(nat \<Rightarrow> bool) \<Rightarrow> page \<Rightarrow> naver_result" where
  "place_info alnum p =
     (case phone_step p no_result of
        Raises \<Rightarrow> no_result
      | Interrupts \<Rightarrow> no_result
      | Returns r1 \<Rightarrow>
          (case homepage_step p r1 of
             Raises \<Rightarrow> r1
           | Interrupts \<Rightarrow> r1
           | Returns r2 \<Rightarrow>
               (case email_step alnum p r2 of
                  Raises \<Rightarrow> r2
                | Interrupts \<Rightarrow> r2
                | Returns r3 \<Rightarrow> r3)))"

text \<open>
  Whether control leaves the inner \<open>try\<close> block by an interrupt, which neither its
  \<open>except Exception\<close> nor the outer one catches: then \<open>return result\<close> is not reached.
\<close>

definition place_interrupted :: "(nat \<Rightarrow> bool) \<Rightarrow> page \<Rightarrow> bool" where
  "place_interrupted alnum p =
     (case phone_step p no_result of
        Raises \<Rightarrow> False
      | Interrupts \<Rightarrow> True
      | Returns r1 \<Rightarrow>
          (case homepage_step p r1 of
             Raises \<Rightarrow> False
           | Interrupts \<Rightarrow> True
           | Returns r2 \<Rightarrow>
               (case email_step alnum p r2 of
                  Raises \<Rightarrow> False
                | Interrupts \<Rightarrow> True
                | Returns r3 \<Rightarrow> False)))"

definition search_url :: "pystr \<Rightarrow> pystr" where
  "search_url company_name = lit ''https://search.naver.com/search.naver?query='' @ company_name"

text \<open>
  \<open>search_naver_place\<close>: the outer \<open>except Exception\<close> answers a failed navigation with
  the record of three \<open>None\<close>s. An interrupt, in the navigation or in the inner block,
  passes to the caller.
\<close>

definition search_naver_place ::
  "(nat \<Rightarrow> bool) \<Rightarrow> crawler \<Rightarrow> pystr \<Rightarrow> naver_result outcome \<times> crawler" where
  "search_naver_place alnum self company_name =
     (case navigate (note_event (Invoke_search company_name) self) (search_url company_name) of
        (Raises, self') \<Rightarrow> (Returns no_result, self')
      | (Interrupts, self') \<Rightarrow> (Interrupts, self')
      | (Returns p, self') \<Rightarrow>
          (if place_interrupted alnum p then (Interrupts, self')
           else (Returns (place_info alnum p), self')))"

section \<open>The website stage\<close>

text \<open>
  \<^verbatim>\<open>
  priority_keywords = ['ceo', 'info', 'contact', 'admin', 'master']
  for keyword in priority_keywords:
      for email in emails:
          if keyword in email.lower():
              return email
  if emails:
      return emails[0]
  return None
  \<close>
  \<open>first_with\<close> is the inner loop for one keyword, \<open>by_priority\<close> the outer loop.
\<close>

definition priority_keywords :: "pystr list" where
  "priority_keywords = map lit [''ceo'', ''info'', ''contact'', ''admin'', ''master'']"

fun first_with :: "pystr \<Rightarrow> pystr list \<Rightarrow> pystr option" where
  "first_with keyword [] = None"
| "first_with keyword (email # emails) =
     (if sublist keyword (lower email) then Some email else first_with keyword emails)"

fun by_priority :: "pystr list \<Rightarrow> pystr list \<Rightarrow> pystr option" where
  "by_priority [] emails = None"
| "by_priority (keyword # keywords) emails =
     (case first_with keyword emails of
        Some email \<Rightarrow> Some email
      | None \<Rightarrow> by_priority keywords emails)"

definition pick_best :: "pystr list \<Rightarrow> pystr list \<Rightarrow> pystr option" where
  "pick_best emails keywords =
     (case by_priority keywords emails of
        Some email \<Rightarrow> Some email
      | None \<Rightarrow> (case emails of [] \<Rightarrow> None | email # _ \<Rightarrow> Some email))"

text \<open>
  \<^verbatim>\<open>
  contact_links = self.driver.find_elements(By.XPATH, ...)
  if contact_links:
      contact_links[0].click()
      time.sleep(2)
  \<close>
  The page the browser is on afterwards.
\<close>

definition contact_page :: "crawler \<Rightarrow> page \<Rightarrow> page outcome \<times> crawler" where
  "contact_page self p =
     (case contact_links p of
        Raises \<Rightarrow> (Raises, self)
      | Interrupts \<Rightarrow> (Interrupts, self)
      | Returns [] \<Rightarrow> (Returns p, self)
      | Returns (link # _) \<Rightarrow> click self link)"

text \<open>\<open>if not url.startswith('http'): url = 'http://' + url\<close>\<close>

definition normalize_url :: "pystr \<Rightarrow> pystr" where
  "normalize_url url = (if prefix (lit ''http'') url then url else lit ''http://'' @ url)"

text \<open>
  The body of the \<open>try\<close> of \<open>extract_email_from_website\<close>, from the navigation on, for a
  non-empty url.
\<close>

definition website_body ::
  "(nat \<Rightarrow> bool) \<Rightarrow> crawler \<Rightarrow> pystr \<Rightarrow> pystr option outcome \<times> crawler" where
  "website_body alnum self url =
     (case navigate self (normalize_url url) of
        (Raises, self1) \<Rightarrow> (Raises, self1)
      | (Interrupts, self1) \<Rightarrow> (Interrupts, self1)
      | (Returns p, self1) \<Rightarrow>
          (case contact_page self1 p of
             (Raises, self2) \<Rightarrow> (Raises, self2)
           | (Interrupts, self2) \<Rightarrow> (Interrupts, self2)
           | (Returns p', self2) \<Rightarrow>
               (case page_source p' of
                  Raises \<Rightarrow> (Raises, self2)
                | Interrupts \<Rightarrow> (Interrupts, self2)
                | Returns src \<Rightarrow>
                    (Returns (pick_best (findall alnum src) priority_keywords), self2))))"

text \<open>
  \<open>extract_email_from_website\<close>: \<open>None\<close> for a url that is \<open>None\<close> or empty; the
  \<open>except Exception\<close> around the body logs a warning and returns \<open>None\<close>, and lets an
  interrupt pass to the caller.
\<close>

definition extract_email_from_website ::
  "(nat \<Rightarrow> bool) \<Rightarrow> crawler \<Rightarrow> pystr option \<Rightarrow> pystr option outcome \<times> crawler" where
  "extract_email_from_website alnum self url =
     (let self0 = note_event (Invoke_website url) self in
      if \<not> truthy url then (Returns None, self0)
      else
        (case website_body alnum self0 (the url) of
           (Raises, self') \<Rightarrow> (Returns None, self')
         | (Interrupts, self') \<Rightarrow> (Interrupts, self')
         | (Returns found, self') \<Rightarrow> (Returns found, self')))"

section \<open>The tiered lookup\<close>

text \<open>
  The result of \<open>find_email\<close>. The source label is \<open>None\<close>, the Korean for
  "Naver Place" (the search portal's listing) or the Korean for "company homepage"; the
  confidence label is \<open>'LOW'\<close>, \<open>'MEDIUM'\<close> or \<open>'HIGH'\<close>.
\<close>

datatype source_label = Naver_place | Company_homepage

datatype confidence_label = LOW | MEDIUM | HIGH

record discovery =
  email :: "pystr option"
  source :: "source_label option"
  confidence :: confidence_label

text \<open>
  \<open>find_email\<close> has no \<open>try\<close> of its own: whatever a stage raises passes through it.
  The argument \<open>representative\<close> is accepted and not read.
\<close>

definition find_email ::
  "(nat \<Rightarrow> bool) \<Rightarrow> crawler \<Rightarrow> pystr \<Rightarrow> pystr option \<Rightarrow> discovery outcome \<times> crawler" where
  "find_email alnum self company_name representative =
     (case search_naver_place alnum self company_name of
        (Raises, self1) \<Rightarrow> (Raises, self1)
      | (Interrupts, self1) \<Rightarrow> (Interrupts, self1)
      | (Returns nr, self1) \<Rightarrow>
          if truthy (nr_email nr) then
            (Returns \<lparr>email = nr_email nr, source = Some Naver_place, confidence = HIGH\<rparr>, self1)
          else if truthy (nr_homepage nr) then
            (case extract_email_from_website alnum self1 (nr_homepage nr) of
               (Raises, self2) \<Rightarrow> (Raises, self2)
             | (Interrupts, self2) \<Rightarrow> (Interrupts, self2)
             | (Returns website_email, self2) \<Rightarrow>
                 if truthy website_email then
                   (Returns \<lparr>email = website_email, source = Some Company_homepage,
                      confidence = MEDIUM\<rparr>, self2)
                 else (Returns \<lparr>email = None, source = None, confidence = LOW\<rparr>, self2))
          else (Returns \<lparr>email = None, source = None, confidence = LOW\<rparr>, self1))"

section \<open>Properties of the tiered lookup\<close>

text \<open>The number of calls of \<open>extract_email_from_website\<close> a crawler has seen.\<close>

fun is_website_call :: "event \<Rightarrow> bool" where
  "is_website_call (Invoke_website url) = True"
| "is_website_call ev = False"

definition website_calls :: "crawler \<Rightarrow> nat" where
  "website_calls self = length (filter is_website_call (trace self))"

text \<open>
  A small web for the examples: the search for \<open>acme\<close> shows a listing with the address
  \<open>sales@acme.kr\<close> and a link to the company's homepage.
\<close>

definition link_to :: "string \<Rightarrow> element" where
  "link_to href =
     \<lparr>elem_text = Returns [], elem_href = Returns (Some (lit href)), elem_click = Raises\<rparr>"

definition acme_listing :: page where
  "acme_listing =
     \<lparr>phone_elements = Returns [],
      homepage_elements = Returns [link_to ''http://acme.kr''],
      contact_links = Returns [],
      page_source = Returns (lit ''<p>sales@acme.kr</p>'')\<rparr>"

definition acme_driver :: driver where
  "acme_driver =
     \<lparr>driver_get = (\<lambda>url. if url = search_url (lit ''acme'') then Returns 0 else Raises),
      shown = (\<lambda>n. acme_listing)\<rparr>"

definition acme_crawler :: crawler where
  "acme_crawler = \<lparr>driver = Some acme_driver, trace = []\<rparr>"

lemma search_not_raises: "fst (search_naver_place alnum self company_name) \<noteq> Raises"
  by (auto simp: search_naver_place_def split: prod.splits outcome.splits)

lemma website_not_raises: "fst (extract_email_from_website alnum self url) \<noteq> Raises"
  by (auto simp: extract_email_from_website_def Let_def split: prod.splits outcome.splits)

lemma navigate_website_calls:
  "navigate self url = (out, self1) \<Longrightarrow> website_calls self1 = website_calls self"
  by (auto simp: navigate_def note_event_def website_calls_def
      split: option.splits outcome.splits)

lemma search_website_calls:
  "search_naver_place alnum self company_name = (out, self1) \<Longrightarrow>
   website_calls self1 = website_calls self"
  by (auto simp: search_naver_place_def split: prod.splits outcome.splits if_splits
      dest!: navigate_website_calls) (auto simp: note_event_def website_calls_def)

text \<open>
  Claim C1. When the search stage returns a non-empty email, \<open>find_email\<close> returns that
  email with the source of the search portal and the confidence \<open>HIGH\<close>, in the state the
  search stage left, and no call of \<open>extract_email_from_website\<close> has been added.
\<close>

theorem find_email_short_circuit:
  assumes "search_naver_place alnum self company_name = (Returns nr, self1)"
    and "truthy (nr_email nr)"
  shows "find_email alnum self company_name representative =
           (Returns \<lparr>email = nr_email nr, source = Some Naver_place, confidence = HIGH\<rparr>, self1)
         \<and> website_calls (snd (find_email alnum self company_name representative)) =
             website_calls self"
  using assms search_website_calls [OF assms(1)] by (simp add: find_email_def)

lemma acme_findall: "findall alnum (lit ''<p>sales@acme.kr</p>'') = [lit ''sales@acme.kr'']"
  by code_simp

lemma blank_findall: "findall alnum (lit ''<html></html>'') = []"
  by code_simp

lemma acme_portal_free: "portal_free (lit ''sales@acme.kr'')" "portal_free (lit ''http://acme.kr'')"
  by (simp_all add: portal_free_def) code_simp+

lemma acme_place_info:
  "place_info alnum acme_listing =
     \<lparr>nr_email = Some (lit ''sales@acme.kr''), nr_homepage = Some (lit ''http://acme.kr''),
      nr_phone = None\<rparr>"
  by (simp add: place_info_def phone_step_def homepage_step_def email_step_def acme_listing_def
      no_result_def link_to_def truthy_def acme_findall valid_emails_def acme_portal_free)
     (simp add: lit_def)

lemma acme_not_interrupted: "\<not> place_interrupted alnum acme_listing"
  by (simp add: place_interrupted_def phone_step_def homepage_step_def email_step_def
      acme_listing_def no_result_def link_to_def truthy_def acme_findall valid_emails_def
      acme_portal_free)

lemma acme_search:
  "search_naver_place alnum acme_crawler (lit ''acme'') =
     (Returns \<lparr>nr_email = Some (lit ''sales@acme.kr''), nr_homepage = Some (lit ''http://acme.kr''),
      nr_phone = None\<rparr>,
      \<lparr>driver = Some acme_driver,
       trace = [Invoke_search (lit ''acme''), Navigate (search_url (lit ''acme''))]\<rparr>)"
  by (simp add: search_naver_place_def navigate_def note_event_def acme_crawler_def
      acme_driver_def acme_place_info acme_not_interrupted)

theorem find_email_short_circuit_witness:
  "search_naver_place (\<lambda>c. False) acme_crawler (lit ''acme'') =
     (Returns \<lparr>nr_email = Some (lit ''sales@acme.kr''), nr_homepage = Some (lit ''http://acme.kr''),
        nr_phone = None\<rparr>,
      \<lparr>driver = Some acme_driver,
       trace = [Invoke_search (lit ''acme''), Navigate (search_url (lit ''acme''))]\<rparr>)
   \<and> find_email (\<lambda>c. False) acme_crawler (lit ''acme'') None =
     (Returns \<lparr>email = Some (lit ''sales@acme.kr''), source = Some Naver_place,
        confidence = HIGH\<rparr>,
      \<lparr>driver = Some acme_driver,
       trace = [Invoke_search (lit ''acme''), Navigate (search_url (lit ''acme''))]\<rparr>)
   \<and> website_calls (snd (find_email (\<lambda>c. False) acme_crawler (lit ''acme'') None)) = 0"
proof -
  note s = acme_search [of "\<lambda>c. False"]
  have t: "truthy (nr_email \<lparr>nr_email = Some (lit ''sales@acme.kr''),
      nr_homepage = Some (lit ''http://acme.kr''), nr_phone = None\<rparr>)"
    by (simp add: truthy_def lit_def)
  have z: "website_calls acme_crawler = 0"
    by (simp add: website_calls_def acme_crawler_def)
  note f = find_email_short_circuit [OF s t, of None]
  have a: "find_email (\<lambda>c. False) acme_crawler (lit ''acme'') None =
     (Returns \<lparr>email = Some (lit ''sales@acme.kr''), source = Some Naver_place,
        confidence = HIGH\<rparr>,
      \<lparr>driver = Some acme_driver,
       trace = [Invoke_search (lit ''acme''), Navigate (search_url (lit ''acme''))]\<rparr>)"
    using f [THEN conjunct1] by simp
  have b: "website_calls (snd (find_email (\<lambda>c. False) acme_crawler (lit ''acme'') None)) = 0"
    using f [THEN conjunct2] z by (simp only:)
  show ?thesis
    by (rule conjI [OF s conjI [OF a b]])
qed

text \<open>
  A crawler whose browser was never set up: every search answers with three \<open>None\<close>s.
  And a third small web: the search for \<open>bolt\<close> shows a listing with a homepage link and
  no address, and the homepage shows the address \<open>info@bolt.kr\<close>.
\<close>

definition idle_crawler :: crawler where
  "idle_crawler = \<lparr>driver = None, trace = []\<rparr>"

definition bolt_listing :: page where
  "bolt_listing =
     \<lparr>phone_elements = Returns [],
      homepage_elements = Returns [link_to ''http://bolt.kr''],
      contact_links = Returns [],
      page_source = Returns (lit ''<html></html>'')\<rparr>"

definition bolt_home :: page where
  "bolt_home =
     \<lparr>phone_elements = Returns [], homepage_elements = Returns [], contact_links = Returns [],
      page_source = Returns (lit ''<p>info@bolt.kr</p>'')\<rparr>"

definition bolt_driver :: driver where
  "bolt_driver =
     \<lparr>driver_get = (\<lambda>url. if url = search_url (lit ''bolt'') then Returns 0
                         else if url = lit ''http://bolt.kr'' then Returns 1 else Raises),
      shown = (\<lambda>n. if n = 0 then bolt_listing else bolt_home)\<rparr>"

definition bolt_crawler :: crawler where
  "bolt_crawler = \<lparr>driver = Some bolt_driver, trace = []\<rparr>"

text \<open>
  Claim C2. In every result that \<open>find_email\<close> returns, the confidence and the source
  determine each other: \<open>HIGH\<close> with the search portal, \<open>MEDIUM\<close> with the homepage,
  \<open>LOW\<close> with no source; the result with no source is the one with no email and \<open>LOW\<close>.
\<close>

theorem find_email_confidence:
  assumes "find_email alnum self company_name representative = (Returns r, self1)"
  shows "(confidence r = HIGH \<longleftrightarrow> source r = Some Naver_place) \<and>
     (confidence r = MEDIUM \<longleftrightarrow> source r = Some Company_homepage) \<and>
     (confidence r = LOW \<longleftrightarrow> source r = None) \<and>
     (source r = None \<longleftrightarrow> r = \<lparr>email = None, source = None, confidence = LOW\<rparr>)"
proof (cases "search_naver_place alnum self company_name")
  case (Pair out s1)
  show ?thesis
  proof (cases out)
    case Raises
    with Pair assms show ?thesis by (simp add: find_email_def)
  next
    case Interrupts
    with Pair assms show ?thesis by (simp add: find_email_def)
  next
    case (Returns nr)
    show ?thesis
    proof (cases "truthy (nr_email nr)")
      case True
      with Pair Returns assms show ?thesis by (auto simp: find_email_def)
    next
      case False
      show ?thesis
      proof (cases "truthy (nr_homepage nr)")
        case no: False
        with False Pair Returns assms show ?thesis by (auto simp: find_email_def)
      next
        case True
        with False Pair Returns assms show ?thesis
          by (auto simp: find_email_def split: prod.splits outcome.splits if_splits)
      qed
    qed
  qed
qed

lemma acme_find_email:
  "find_email alnum acme_crawler (lit ''acme'') representative =
     (Returns \<lparr>email = Some (lit ''sales@acme.kr''), source = Some Naver_place,
        confidence = HIGH\<rparr>,
      \<lparr>driver = Some acme_driver,
       trace = [Invoke_search (lit ''acme''), Navigate (search_url (lit ''acme''))]\<rparr>)"
proof -
  have "lit ''sales@acme.kr'' \<noteq> []"
    by (simp add: lit_def)
  then show ?thesis
    by (simp add: find_email_def acme_search truthy_def)
qed

lemma idle_find_email:
  "find_email alnum idle_crawler (lit ''acme'') representative =
     (Returns \<lparr>email = None, source = None, confidence = LOW\<rparr>,
      \<lparr>driver = None, trace = [Invoke_search (lit ''acme'')]\<rparr>)"
  by (simp add: find_email_def search_naver_place_def navigate_def note_event_def
      idle_crawler_def no_result_def truthy_def)

lemma bolt_findall: "findall alnum (lit ''<p>info@bolt.kr</p>'') = [lit ''info@bolt.kr'']"
  by code_simp

lemma bolt_portal_free: "portal_free (lit ''http://bolt.kr'')"
  unfolding portal_free_def by code_simp

lemma bolt_link: "first_homepage [link_to ''http://bolt.kr''] = Returns (Some (lit ''http://bolt.kr''))"
  by (simp add: link_to_def truthy_def bolt_portal_free) (simp add: lit_def)

lemma bolt_place_info:
  "place_info alnum bolt_listing =
     \<lparr>nr_email = None, nr_homepage = Some (lit ''http://bolt.kr''), nr_phone = None\<rparr>"
  by (simp add: place_info_def phone_step_def homepage_step_def email_step_def bolt_listing_def
      no_result_def bolt_link blank_findall valid_emails_def del: first_homepage.simps)

lemma bolt_not_interrupted: "\<not> place_interrupted alnum bolt_listing"
  by (simp add: place_interrupted_def phone_step_def homepage_step_def email_step_def
      bolt_listing_def no_result_def bolt_link blank_findall valid_emails_def
      del: first_homepage.simps)

lemma bolt_search:
  "search_naver_place alnum bolt_crawler (lit ''bolt'') =
     (Returns \<lparr>nr_email = None, nr_homepage = Some (lit ''http://bolt.kr''), nr_phone = None\<rparr>,
      \<lparr>driver = Some bolt_driver,
       trace = [Invoke_search (lit ''bolt''), Navigate (search_url (lit ''bolt''))]\<rparr>)"
  by (simp add: search_naver_place_def navigate_def note_event_def bolt_crawler_def
      bolt_driver_def bolt_place_info bolt_not_interrupted)

lemma bolt_pick: "pick_best [lit ''info@bolt.kr''] priority_keywords = Some (lit ''info@bolt.kr'')"
  by code_simp

lemma bolt_url: "normalize_url (lit ''http://bolt.kr'') = lit ''http://bolt.kr''"
  "lit ''http://bolt.kr'' \<noteq> search_url (lit ''bolt'')" "lit ''http://bolt.kr'' \<noteq> []"
  "lit ''info@bolt.kr'' \<noteq> []"
  by (simp_all add: normalize_url_def search_url_def lit_def)

lemma bolt_website:
  "extract_email_from_website alnum
     \<lparr>driver = Some bolt_driver,
      trace = [Invoke_search (lit ''bolt''), Navigate (search_url (lit ''bolt''))]\<rparr>
     (Some (lit ''http://bolt.kr'')) =
   (Returns (Some (lit ''info@bolt.kr'')),
    \<lparr>driver = Some bolt_driver,
     trace = [Invoke_search (lit ''bolt''), Navigate (search_url (lit ''bolt'')),
       Invoke_website (Some (lit ''http://bolt.kr'')), Navigate (lit ''http://bolt.kr'')]\<rparr>)"
  by (simp add: extract_email_from_website_def Let_def truthy_def website_body_def navigate_def
      note_event_def bolt_driver_def bolt_url contact_page_def bolt_home_def bolt_findall
      bolt_pick)

lemma bolt_find_email:
  "find_email alnum bolt_crawler (lit ''bolt'') representative =
     (Returns \<lparr>email = Some (lit ''info@bolt.kr''), source = Some Company_homepage,
        confidence = MEDIUM\<rparr>,
      \<lparr>driver = Some bolt_driver,
       trace = [Invoke_search (lit ''bolt''), Navigate (search_url (lit ''bolt'')),
         Invoke_website (Some (lit ''http://bolt.kr'')), Navigate (lit ''http://bolt.kr'')]\<rparr>)"
  by (simp add: find_email_def bolt_search truthy_def bolt_url bolt_website)

theorem find_email_confidence_witness:
  "find_email (\<lambda>c. False) acme_crawler (lit ''acme'') None =
     (Returns \<lparr>email = Some (lit ''sales@acme.kr''), source = Some Naver_place,
        confidence = HIGH\<rparr>,
      \<lparr>driver = Some acme_driver,
       trace = [Invoke_search (lit ''acme''), Navigate (search_url (lit ''acme''))]\<rparr>) \<and>
   find_email (\<lambda>c. False) bolt_crawler (lit ''bolt'') None =
     (Returns \<lparr>email = Some (lit ''info@bolt.kr''), source = Some Company_homepage,
        confidence = MEDIUM\<rparr>,
      \<lparr>driver = Some bolt_driver,
       trace = [Invoke_search (lit ''bolt''), Navigate (search_url (lit ''bolt'')),
         Invoke_website (Some (lit ''http://bolt.kr'')), Navigate (lit ''http://bolt.kr'')]\<rparr>) \<and>
   find_email (\<lambda>c. False) idle_crawler (lit ''acme'') None =
     (Returns \<lparr>email = None, source = None, confidence = LOW\<rparr>,
      \<lparr>driver = None, trace = [Invoke_search (lit ''acme'')]\<rparr>) \<and>
   (confidence \<lparr>email = Some (lit ''sales@acme.kr''), source = Some Naver_place,
        confidence = HIGH\<rparr> = HIGH) =
   (source \<lparr>email = Some (lit ''sales@acme.kr''), source = Some Naver_place,
        confidence = HIGH\<rparr> = Some Naver_place) \<and>
   (confidence \<lparr>email = Some (lit ''info@bolt.kr''), source = Some Company_homepage,
        confidence = MEDIUM\<rparr> = MEDIUM) =
   (source \<lparr>email = Some (lit ''info@bolt.kr''), source = Some Company_homepage,
        confidence = MEDIUM\<rparr> = Some Company_homepage) \<and>
   (confidence \<lparr>email = None, source = None, confidence = LOW\<rparr> = LOW) =
   (source \<lparr>email = None, source = None, confidence = LOW\<rparr> = None)"
proof -
  note a = acme_find_email [of "\<lambda>c. False" None]
  note b = bolt_find_email [of "\<lambda>c. False" None]
  note i = idle_find_email [of "\<lambda>c. False" None]
  note ra = find_email_confidence [OF a, THEN conjunct1]
  note rb = find_email_confidence [OF b, THEN conjunct2, THEN conjunct1]
  note ri = find_email_confidence [OF i, THEN conjunct2, THEN conjunct2, THEN conjunct1]
  from a b i ra rb ri show ?thesis
    by (intro conjI)
qed

text \<open>
  Claim C10. Two calls of \<open>find_email\<close> that differ only in the representative return the
  same result and leave the same state.
\<close>

theorem find_email_ignores_representative:
  "find_email alnum self company_name representative =
   find_email alnum self company_name representative'"
  by (simp add: find_email_def)

section \<open>Properties of the website stage\<close>

text \<open>
  A second small web: \<open>http://blank.kr\<close> shows a page with no address on it, and every
  other url fails to load.
\<close>

definition blank_page :: page where
  "blank_page =
     \<lparr>phone_elements = Returns [], homepage_elements = Returns [], contact_links = Returns [],
      page_source = Returns (lit ''<html></html>'')\<rparr>"

definition blank_driver :: driver where
  "blank_driver =
     \<lparr>driver_get = (\<lambda>url. if url = lit ''http://blank.kr'' then Returns 0 else Raises),
      shown = (\<lambda>n. blank_page)\<rparr>"

definition blank_crawler :: crawler where
  "blank_crawler = \<lparr>driver = Some blank_driver, trace = []\<rparr>"

text \<open>
  A driver whose \<open>get\<close> is cut short by an interrupt (\<open>KeyboardInterrupt\<close>, as when the
  operator stops the run while a page loads).
\<close>

definition halted_driver :: driver where
  "halted_driver = \<lparr>driver_get = (\<lambda>url. Interrupts), shown = (\<lambda>n. blank_page)\<rparr>"

definition halted_crawler :: crawler where
  "halted_crawler = \<lparr>driver = Some halted_driver, trace = []\<rparr>"

text \<open>
  Claim C9. No exception that derives from \<open>Exception\<close> leaves
  \<open>extract_email_from_website\<close>. It returns \<open>None\<close> for a url that is \<open>None\<close> or empty
  (without touching the browser), when the navigation raises such an exception, when
  anything else in its body raises one, and when the page it ends on (after the click on a
  contact link, if there is one) holds no match of the email pattern. An interrupt in its
  body is not caught: it leaves the method, which then returns nothing.
\<close>

theorem extract_email_from_website_none:
  "fst (extract_email_from_website alnum self url) \<noteq> Raises \<and>
   (\<not> truthy url \<longrightarrow>
      extract_email_from_website alnum self url =
        (Returns None, note_event (Invoke_website url) self)) \<and>
   (u \<noteq> [] \<and>
    navigate (note_event (Invoke_website (Some u)) self) (normalize_url u) = (Raises, self1) \<longrightarrow>
      extract_email_from_website alnum self (Some u) = (Returns None, self1)) \<and>
   (u \<noteq> [] \<and>
    website_body alnum (note_event (Invoke_website (Some u)) self) u = (Raises, self3) \<longrightarrow>
      extract_email_from_website alnum self (Some u) = (Returns None, self3)) \<and>
   (u \<noteq> [] \<and>
    navigate (note_event (Invoke_website (Some u)) self) (normalize_url u) = (Returns p, self1) \<and>
    contact_page self1 p = (Returns p', self2) \<and> page_source p' = Returns src \<and>
    findall alnum src = [] \<longrightarrow>
      extract_email_from_website alnum self (Some u) = (Returns None, self2)) \<and>
   (u \<noteq> [] \<and>
    website_body alnum (note_event (Invoke_website (Some u)) self) u = (Interrupts, self4) \<longrightarrow>
      extract_email_from_website alnum self (Some u) = (Interrupts, self4))"
proof (intro conjI impI)
  show "fst (extract_email_from_website alnum self url) \<noteq> Raises"
    by (rule website_not_raises)
next
  assume "\<not> truthy url"
  then show "extract_email_from_website alnum self url =
      (Returns None, note_event (Invoke_website url) self)"
    by (simp add: extract_email_from_website_def Let_def)
next
  assume "u \<noteq> [] \<and>
    navigate (note_event (Invoke_website (Some u)) self) (normalize_url u) = (Raises, self1)"
  then show "extract_email_from_website alnum self (Some u) = (Returns None, self1)"
    by (simp add: extract_email_from_website_def Let_def truthy_def website_body_def)
next
  assume "u \<noteq> [] \<and>
    website_body alnum (note_event (Invoke_website (Some u)) self) u = (Raises, self3)"
  then show "extract_email_from_website alnum self (Some u) = (Returns None, self3)"
    by (simp add: extract_email_from_website_def Let_def truthy_def)
next
  assume "u \<noteq> [] \<and>
    navigate (note_event (Invoke_website (Some u)) self) (normalize_url u) = (Returns p, self1) \<and>
    contact_page self1 p = (Returns p', self2) \<and> page_source p' = Returns src \<and>
    findall alnum src = []"
  then show "extract_email_from_website alnum self (Some u) = (Returns None, self2)"
    by (simp add: extract_email_from_website_def Let_def truthy_def website_body_def
        pick_best_def priority_keywords_def)
next
  assume "u \<noteq> [] \<and>
    website_body alnum (note_event (Invoke_website (Some u)) self) u = (Interrupts, self4)"
  then show "extract_email_from_website alnum self (Some u) = (Interrupts, self4)"
    by (simp add: extract_email_from_website_def Let_def truthy_def)
qed

lemma halted_body:
  "website_body alnum
     (note_event (Invoke_website (Some (lit ''http://acme.kr''))) halted_crawler)
     (lit ''http://acme.kr'') =
   (Interrupts,
    \<lparr>driver = Some halted_driver,
     trace = [Invoke_website (Some (lit ''http://acme.kr'')),
       Navigate (lit ''http://acme.kr'')]\<rparr>)"
  by (simp add: website_body_def navigate_def note_event_def halted_crawler_def
      halted_driver_def normalize_url_def lit_def)

text \<open>
  The stage does not catch everything: with the interrupted driver the call for
  \<open>http://acme.kr\<close> returns no value, the interrupt reaches the caller.
\<close>

theorem website_stage_interrupt_counterexample:
  "extract_email_from_website (\<lambda>c. False) halted_crawler (Some (lit ''http://acme.kr'')) =
   (Interrupts,
    \<lparr>driver = Some halted_driver,
     trace = [Invoke_website (Some (lit ''http://acme.kr'')),
       Navigate (lit ''http://acme.kr'')]\<rparr>) \<and>
   (\<nexists>found. fst (extract_email_from_website (\<lambda>c. False) halted_crawler
      (Some (lit ''http://acme.kr''))) = Returns found)"
proof -
  have "lit ''http://acme.kr'' \<noteq> []"
    by (simp add: lit_def)
  then show ?thesis
    by (simp add: extract_email_from_website_def Let_def truthy_def halted_body)
qed

lemma blank_navigate:
  "navigate (note_event (Invoke_website (Some (lit ''blank.kr''))) blank_crawler)
     (normalize_url (lit ''blank.kr'')) =
   (Returns blank_page,
    \<lparr>driver = Some blank_driver,
     trace = [Invoke_website (Some (lit ''blank.kr'')), Navigate (lit ''http://blank.kr'')]\<rparr>)"
  by (simp add: navigate_def note_event_def blank_crawler_def blank_driver_def normalize_url_def
      lit_def)

lemma down_navigate:
  "navigate (note_event (Invoke_website (Some (lit ''http://down.kr''))) blank_crawler)
     (normalize_url (lit ''http://down.kr'')) =
   (Raises,
    \<lparr>driver = Some blank_driver,
     trace = [Invoke_website (Some (lit ''http://down.kr'')),
       Navigate (lit ''http://down.kr'')]\<rparr>)"
  by (simp add: navigate_def note_event_def blank_crawler_def blank_driver_def normalize_url_def
      lit_def)

theorem extract_email_from_website_none_witness:
  "\<not> truthy None \<and> \<not> truthy (Some []) \<and>
   extract_email_from_website (\<lambda>c. False) blank_crawler None =
     (Returns None, note_event (Invoke_website None) blank_crawler) \<and>
   extract_email_from_website (\<lambda>c. False) blank_crawler (Some []) =
     (Returns None, note_event (Invoke_website (Some [])) blank_crawler) \<and>
   lit ''http://down.kr'' \<noteq> [] \<and>
   navigate (note_event (Invoke_website (Some (lit ''http://down.kr''))) blank_crawler)
     (normalize_url (lit ''http://down.kr'')) =
   (Raises,
    \<lparr>driver = Some blank_driver,
     trace = [Invoke_website (Some (lit ''http://down.kr'')),
       Navigate (lit ''http://down.kr'')]\<rparr>) \<and>
   website_body (\<lambda>c. False)
     (note_event (Invoke_website (Some (lit ''http://down.kr''))) blank_crawler)
     (lit ''http://down.kr'') =
   (Raises,
    \<lparr>driver = Some blank_driver,
     trace = [Invoke_website (Some (lit ''http://down.kr'')),
       Navigate (lit ''http://down.kr'')]\<rparr>) \<and>
   extract_email_from_website (\<lambda>c. False) blank_crawler (Some (lit ''http://down.kr'')) =
   (Returns None,
    \<lparr>driver = Some blank_driver,
     trace = [Invoke_website (Some (lit ''http://down.kr'')),
       Navigate (lit ''http://down.kr'')]\<rparr>) \<and>
   lit ''blank.kr'' \<noteq> [] \<and>
   findall (\<lambda>c. False) (lit ''<html></html>'') = [] \<and>
   extract_email_from_website (\<lambda>c. False) blank_crawler (Some (lit ''blank.kr'')) =
   (Returns None,
    \<lparr>driver = Some blank_driver,
     trace = [Invoke_website (Some (lit ''blank.kr'')), Navigate (lit ''http://blank.kr'')]\<rparr>) \<and>
   lit ''http://acme.kr'' \<noteq> [] \<and>
   website_body (\<lambda>c. False)
     (note_event (Invoke_website (Some (lit ''http://acme.kr''))) halted_crawler)
     (lit ''http://acme.kr'') =
   (Interrupts,
    \<lparr>driver = Some halted_driver,
     trace = [Invoke_website (Some (lit ''http://acme.kr'')),
       Navigate (lit ''http://acme.kr'')]\<rparr>) \<and>
   fst (extract_email_from_website (\<lambda>c. False) halted_crawler (Some (lit ''http://acme.kr''))) =
     Interrupts"
proof -
  have t: "\<not> truthy None" "\<not> truthy (Some [])"
    by (simp_all add: truthy_def)
  have n: "lit ''http://down.kr'' \<noteq> []" "lit ''blank.kr'' \<noteq> []"
    by (simp_all add: lit_def)
  have b: "website_body (\<lambda>c. False)
     (note_event (Invoke_website (Some (lit ''http://down.kr''))) blank_crawler)
     (lit ''http://down.kr'') =
   (Raises,
    \<lparr>driver = Some blank_driver,
     trace = [Invoke_website (Some (lit ''http://down.kr'')),
       Navigate (lit ''http://down.kr'')]\<rparr>)"
    by (simp add: website_body_def down_navigate)
  have c: "contact_page \<lparr>driver = Some blank_driver,
     trace = [Invoke_website (Some (lit ''blank.kr'')), Navigate (lit ''http://blank.kr'')]\<rparr>
     blank_page = (Returns blank_page, \<lparr>driver = Some blank_driver,
     trace = [Invoke_website (Some (lit ''blank.kr'')), Navigate (lit ''http://blank.kr'')]\<rparr>)"
    by (simp add: contact_page_def blank_page_def)
  have s: "page_source blank_page = Returns (lit ''<html></html>'')"
    by (simp add: blank_page_def)
  note th = extract_email_from_website_none [where alnum = "\<lambda>c. False" and self = blank_crawler]
  have r1: "extract_email_from_website (\<lambda>c. False) blank_crawler None =
     (Returns None, note_event (Invoke_website None) blank_crawler)"
    by (rule th [THEN conjunct2, THEN conjunct1, THEN mp, OF t(1)])
  have r2: "extract_email_from_website (\<lambda>c. False) blank_crawler (Some []) =
     (Returns None, note_event (Invoke_website (Some [])) blank_crawler)"
    by (rule th [THEN conjunct2, THEN conjunct1, THEN mp, OF t(2)])
  have r3: "extract_email_from_website (\<lambda>c. False) blank_crawler (Some (lit ''http://down.kr'')) =
   (Returns None,
    \<lparr>driver = Some blank_driver,
     trace = [Invoke_website (Some (lit ''http://down.kr'')),
       Navigate (lit ''http://down.kr'')]\<rparr>)"
    by (rule th [THEN conjunct2, THEN conjunct2, THEN conjunct2, THEN conjunct1, THEN mp,
          OF conjI [OF n(1) b]])
  have r3': "extract_email_from_website (\<lambda>c. False) blank_crawler (Some (lit ''http://down.kr'')) =
   (Returns None,
    \<lparr>driver = Some blank_driver,
     trace = [Invoke_website (Some (lit ''http://down.kr'')),
       Navigate (lit ''http://down.kr'')]\<rparr>)"
    by (rule th [THEN conjunct2, THEN conjunct2, THEN conjunct1, THEN mp,
          OF conjI [OF n(1) down_navigate]])
  have r4: "extract_email_from_website (\<lambda>c. False) blank_crawler (Some (lit ''blank.kr'')) =
   (Returns None,
    \<lparr>driver = Some blank_driver,
     trace = [Invoke_website (Some (lit ''blank.kr'')), Navigate (lit ''http://blank.kr'')]\<rparr>)"
    by (rule th [THEN conjunct2, THEN conjunct2, THEN conjunct2, THEN conjunct2, THEN conjunct1,
          THEN mp,
          OF conjI [OF n(2) conjI [OF blank_navigate conjI [OF c conjI [OF s blank_findall]]]]])
  have m: "lit ''http://acme.kr'' \<noteq> []"
    by (simp add: lit_def)
  have h: "website_body (\<lambda>c. False)
     (note_event (Invoke_website (Some (lit ''http://acme.kr''))) halted_crawler)
     (lit ''http://acme.kr'') =
   (Interrupts,
    \<lparr>driver = Some halted_driver,
     trace = [Invoke_website (Some (lit ''http://acme.kr'')),
       Navigate (lit ''http://acme.kr'')]\<rparr>)"
    by (rule halted_body)
  have "extract_email_from_website (\<lambda>c. False) halted_crawler (Some (lit ''http://acme.kr'')) =
   (Interrupts,
    \<lparr>driver = Some halted_driver,
     trace = [Invoke_website (Some (lit ''http://acme.kr'')),
       Navigate (lit ''http://acme.kr'')]\<rparr>)"
    by (rule extract_email_from_website_none [where alnum = "\<lambda>c. False" and self = halted_crawler,
          THEN conjunct2, THEN conjunct2, THEN conjunct2, THEN conjunct2, THEN conjunct2,
          THEN mp, OF conjI [OF m h]])
  then have r5: "fst (extract_email_from_website (\<lambda>c. False) halted_crawler
      (Some (lit ''http://acme.kr''))) = Interrupts"
    by simp
  from t r1 r2 n(1) down_navigate b r3' n(2) blank_findall r4 m h r5 show ?thesis
    by (intro conjI)
qed

section \<open>Properties of the search stage\<close>

text \<open>
  Three listings for the examples, each with a phone element, a homepage link and an
  address in its source. On the first the text of the phone element cannot be read, on the
  second the \<open>href\<close> of the link cannot be read, on the third the page source cannot be
  read.
\<close>

definition phone_elem :: "pystr outcome \<Rightarrow> element" where
  "phone_elem t = \<lparr>elem_text = t, elem_href = Returns None, elem_click = Raises\<rparr>"

definition stale_phone_listing :: page where
  "stale_phone_listing =
     \<lparr>phone_elements = Returns [phone_elem Raises],
      homepage_elements = Returns [link_to ''http://acme.kr''],
      contact_links = Returns [],
      page_source = Returns (lit ''<p>sales@acme.kr</p>'')\<rparr>"

definition stale_link_listing :: page where
  "stale_link_listing =
     \<lparr>phone_elements = Returns [phone_elem (Returns (lit '' 02-123-4567 ''))],
      homepage_elements =
        Returns [\<lparr>elem_text = Returns [], elem_href = Raises, elem_click = Raises\<rparr>],
      contact_links = Returns [],
      page_source = Returns (lit ''<p>sales@acme.kr</p>'')\<rparr>"

definition no_source_listing :: page where
  "no_source_listing =
     \<lparr>phone_elements = Returns [phone_elem (Returns (lit '' 02-123-4567 ''))],
      homepage_elements = Returns [link_to ''http://acme.kr''],
      contact_links = Returns [],
      page_source = Raises\<rparr>"

definition stale_driver :: driver where
  "stale_driver = \<lparr>driver_get = (\<lambda>url. Returns 0), shown = (\<lambda>n. stale_phone_listing)\<rparr>"

lemma phone_step_keeps:
  "phone_step p r = Returns r1 \<Longrightarrow> nr_email r1 = nr_email r \<and> nr_homepage r1 = nr_homepage r"
  by (auto simp: phone_step_def split: outcome.splits list.splits)

lemma homepage_step_keeps:
  "homepage_step p r = Returns r2 \<Longrightarrow> nr_email r2 = nr_email r \<and> nr_phone r2 = nr_phone r"
  by (auto simp: homepage_step_def split: outcome.splits option.splits)

lemma email_step_keeps:
  "email_step alnum p r = Returns r3 \<Longrightarrow>
   nr_homepage r3 = nr_homepage r \<and> nr_phone r3 = nr_phone r"
  by (auto simp: email_step_def split: outcome.splits list.splits)

text \<open>
  Claim C8, as amended. The three fields are extracted in the order phone, homepage, email
  inside one \<open>try\<close>. When a step raises, the fields of the steps before it are kept, and
  the field of that step and of every later step stay \<open>None\<close>; so a phone lookup that
  raises leaves all three fields \<open>None\<close>. After a navigation that succeeded the stage
  returns exactly this record, unless a step was interrupted: then the interrupt leaves
  the stage.
\<close>

theorem place_info_stops_at_first_raise:
  "(phone_step p no_result = Raises \<longrightarrow> place_info alnum p = no_result) \<and>
   (phone_step p no_result = Returns r1 \<and> homepage_step p r1 = Raises \<longrightarrow>
      place_info alnum p = r1 \<and> nr_homepage r1 = None \<and> nr_email r1 = None) \<and>
   (phone_step p no_result = Returns r1 \<and> homepage_step p r1 = Returns r2 \<and>
    email_step alnum p r2 = Raises \<longrightarrow>
      place_info alnum p = r2 \<and> nr_phone r2 = nr_phone r1 \<and> nr_email r2 = None) \<and>
   (phone_step p no_result = Returns r1 \<and> homepage_step p r1 = Returns r2 \<and>
    email_step alnum p r2 = Returns r3 \<longrightarrow>
      place_info alnum p = r3 \<and> nr_phone r3 = nr_phone r1 \<and> nr_homepage r3 = nr_homepage r2) \<and>
   (navigate (note_event (Invoke_search company_name) self) (search_url company_name) =
      (Returns p, self1) \<longrightarrow>
      search_naver_place alnum self company_name =
        ((if place_interrupted alnum p then Interrupts else Returns (place_info alnum p)),
         self1))"
proof (intro conjI impI)
  assume "phone_step p no_result = Raises"
  then show "place_info alnum p = no_result"
    by (simp add: place_info_def)
next
  assume a: "phone_step p no_result = Returns r1 \<and> homepage_step p r1 = Raises"
  then show "place_info alnum p = r1"
    by (simp add: place_info_def)
  from a phone_step_keeps [of p no_result r1]
  show "nr_homepage r1 = None" "nr_email r1 = None"
    by (simp_all add: no_result_def)
next
  assume a: "phone_step p no_result = Returns r1 \<and> homepage_step p r1 = Returns r2 \<and>
    email_step alnum p r2 = Raises"
  then show "place_info alnum p = r2"
    by (simp add: place_info_def)
  from a phone_step_keeps [of p no_result r1] homepage_step_keeps [of p r1 r2]
  show "nr_phone r2 = nr_phone r1" "nr_email r2 = None"
    by (simp_all add: no_result_def)
next
  assume a: "phone_step p no_result = Returns r1 \<and> homepage_step p r1 = Returns r2 \<and>
    email_step alnum p r2 = Returns r3"
  then show "place_info alnum p = r3"
    by (simp add: place_info_def)
  from a homepage_step_keeps [of p r1 r2] email_step_keeps [of alnum p r2 r3]
  show "nr_phone r3 = nr_phone r1" "nr_homepage r3 = nr_homepage r2"
    by simp_all
next
  assume "navigate (note_event (Invoke_search company_name) self) (search_url company_name) =
      (Returns p, self1)"
  then show "search_naver_place alnum self company_name =
      ((if place_interrupted alnum p then Interrupts else Returns (place_info alnum p)), self1)"
    by (simp add: search_naver_place_def)
qed

lemma strip_phone: "strip (lit '' 02-123-4567 '') = lit ''02-123-4567''"
  by (simp add: strip_def space_char_def lit_def)

lemma link_acme: "first_homepage [link_to ''http://acme.kr''] = Returns (Some (lit ''http://acme.kr''))"
  by (simp add: link_to_def truthy_def acme_portal_free) (simp add: lit_def)

lemma acme_valid: "valid_emails (findall alnum (lit ''<p>sales@acme.kr</p>'')) = [lit ''sales@acme.kr'']"
  by (simp add: acme_findall valid_emails_def acme_portal_free)

lemma stale_navigate:
  "navigate (note_event (Invoke_search (lit ''acme'')) \<lparr>driver = Some stale_driver, trace = []\<rparr>)
     (search_url (lit ''acme'')) =
   (Returns stale_phone_listing,
    \<lparr>driver = Some stale_driver,
     trace = [Invoke_search (lit ''acme''), Navigate (search_url (lit ''acme''))]\<rparr>)"
  by (simp add: navigate_def note_event_def stale_driver_def)

theorem search_stage_all_or_nothing_counterexample:
  "phone_step stale_phone_listing no_result = Raises \<and>
   homepage_step stale_phone_listing no_result =
     Returns (no_result\<lparr>nr_homepage := Some (lit ''http://acme.kr'')\<rparr>) \<and>
   email_step (\<lambda>c. False) stale_phone_listing no_result =
     Returns (no_result\<lparr>nr_email := Some (lit ''sales@acme.kr'')\<rparr>) \<and>
   search_naver_place (\<lambda>c. False) \<lparr>driver = Some stale_driver, trace = []\<rparr> (lit ''acme'') =
     (Returns \<lparr>nr_email = None, nr_homepage = None, nr_phone = None\<rparr>,
      \<lparr>driver = Some stale_driver,
       trace = [Invoke_search (lit ''acme''), Navigate (search_url (lit ''acme''))]\<rparr>)"
proof -
  have a: "phone_step stale_phone_listing no_result = Raises"
    by (simp add: phone_step_def stale_phone_listing_def phone_elem_def)
  have b: "homepage_step stale_phone_listing no_result =
     Returns (no_result\<lparr>nr_homepage := Some (lit ''http://acme.kr'')\<rparr>)"
    by (simp add: homepage_step_def stale_phone_listing_def link_acme del: first_homepage.simps)
  have c: "email_step (\<lambda>c. False) stale_phone_listing no_result =
     Returns (no_result\<lparr>nr_email := Some (lit ''sales@acme.kr'')\<rparr>)"
    by (simp add: email_step_def stale_phone_listing_def acme_valid)
  have d: "place_info (\<lambda>c. False) stale_phone_listing = no_result"
    by (simp add: place_info_def a)
  have i: "\<not> place_interrupted (\<lambda>c. False) stale_phone_listing"
    by (simp add: place_interrupted_def a)
  have e: "search_naver_place (\<lambda>c. False) \<lparr>driver = Some stale_driver, trace = []\<rparr> (lit ''acme'') =
     (Returns \<lparr>nr_email = None, nr_homepage = None, nr_phone = None\<rparr>,
      \<lparr>driver = Some stale_driver,
       trace = [Invoke_search (lit ''acme''), Navigate (search_url (lit ''acme''))]\<rparr>)"
    by (simp add: search_naver_place_def stale_navigate d i) (simp add: no_result_def)
  from a b c e show ?thesis
    by (intro conjI)
qed

theorem place_info_stops_at_first_raise_witness:
  "phone_step stale_phone_listing no_result = Raises \<and>
   place_info (\<lambda>c. False) stale_phone_listing = no_result \<and>
   phone_step stale_link_listing no_result =
     Returns (no_result\<lparr>nr_phone := Some (lit ''02-123-4567'')\<rparr>) \<and>
   homepage_step stale_link_listing (no_result\<lparr>nr_phone := Some (lit ''02-123-4567'')\<rparr>) =
     Raises \<and>
   place_info (\<lambda>c. False) stale_link_listing =
     no_result\<lparr>nr_phone := Some (lit ''02-123-4567'')\<rparr> \<and>
   phone_step no_source_listing no_result =
     Returns (no_result\<lparr>nr_phone := Some (lit ''02-123-4567'')\<rparr>) \<and>
   homepage_step no_source_listing (no_result\<lparr>nr_phone := Some (lit ''02-123-4567'')\<rparr>) =
     Returns (no_result\<lparr>nr_phone := Some (lit ''02-123-4567''),
       nr_homepage := Some (lit ''http://acme.kr'')\<rparr>) \<and>
   email_step (\<lambda>c. False) no_source_listing
     (no_result\<lparr>nr_phone := Some (lit ''02-123-4567''),
       nr_homepage := Some (lit ''http://acme.kr'')\<rparr>) = Raises \<and>
   place_info (\<lambda>c. False) no_source_listing =
     no_result\<lparr>nr_phone := Some (lit ''02-123-4567''),
       nr_homepage := Some (lit ''http://acme.kr'')\<rparr> \<and>
   phone_step acme_listing no_result = Returns no_result \<and>
   homepage_step acme_listing no_result =
     Returns (no_result\<lparr>nr_homepage := Some (lit ''http://acme.kr'')\<rparr>) \<and>
   email_step (\<lambda>c. False) acme_listing (no_result\<lparr>nr_homepage := Some (lit ''http://acme.kr'')\<rparr>) =
     Returns (no_result\<lparr>nr_homepage := Some (lit ''http://acme.kr''),
       nr_email := Some (lit ''sales@acme.kr'')\<rparr>) \<and>
   place_info (\<lambda>c. False) acme_listing =
     no_result\<lparr>nr_homepage := Some (lit ''http://acme.kr''),
       nr_email := Some (lit ''sales@acme.kr'')\<rparr> \<and>
   search_naver_place (\<lambda>c. False) \<lparr>driver = Some stale_driver, trace = []\<rparr> (lit ''acme'') =
     (Returns (place_info (\<lambda>c. False) stale_phone_listing),
      \<lparr>driver = Some stale_driver,
       trace = [Invoke_search (lit ''acme''), Navigate (search_url (lit ''acme''))]\<rparr>)"
proof -
  let ?ph = "no_result\<lparr>nr_phone := Some (lit ''02-123-4567'')\<rparr>"
  let ?hp = "no_result\<lparr>nr_phone := Some (lit ''02-123-4567''),
       nr_homepage := Some (lit ''http://acme.kr'')\<rparr>"
  have a1: "phone_step stale_phone_listing no_result = Raises"
    by (simp add: phone_step_def stale_phone_listing_def phone_elem_def)
  have b1: "phone_step stale_link_listing no_result = Returns ?ph"
    by (simp add: phone_step_def stale_link_listing_def phone_elem_def strip_phone)
  have b2: "homepage_step stale_link_listing ?ph = Raises"
    by (simp add: homepage_step_def stale_link_listing_def)
  have c1: "phone_step no_source_listing no_result = Returns ?ph"
    by (simp add: phone_step_def no_source_listing_def phone_elem_def strip_phone)
  have c2: "homepage_step no_source_listing ?ph = Returns ?hp"
    by (simp add: homepage_step_def no_source_listing_def link_acme del: first_homepage.simps)
  have c3: "email_step (\<lambda>c. False) no_source_listing ?hp = Raises"
    by (simp add: email_step_def no_source_listing_def)
  have d1: "phone_step acme_listing no_result = Returns no_result"
    by (simp add: phone_step_def acme_listing_def)
  have d2: "homepage_step acme_listing no_result =
     Returns (no_result\<lparr>nr_homepage := Some (lit ''http://acme.kr'')\<rparr>)"
    by (simp add: homepage_step_def acme_listing_def link_acme del: first_homepage.simps)
  have d3: "email_step (\<lambda>c. False) acme_listing
       (no_result\<lparr>nr_homepage := Some (lit ''http://acme.kr'')\<rparr>) =
     Returns (no_result\<lparr>nr_homepage := Some (lit ''http://acme.kr''),
       nr_email := Some (lit ''sales@acme.kr'')\<rparr>)"
    by (simp add: email_step_def acme_listing_def acme_valid)
  note t = place_info_stops_at_first_raise [where alnum = "\<lambda>c. False"]
  have p1: "place_info (\<lambda>c. False) stale_phone_listing = no_result"
    by (rule t [THEN conjunct1, THEN mp, OF a1])
  have p2: "place_info (\<lambda>c. False) stale_link_listing = ?ph"
    by (rule t [THEN conjunct2, THEN conjunct1, THEN mp, OF conjI [OF b1 b2], THEN conjunct1])
  have p3: "place_info (\<lambda>c. False) no_source_listing = ?hp"
    by (rule t [THEN conjunct2, THEN conjunct2, THEN conjunct1, THEN mp,
          OF conjI [OF c1 conjI [OF c2 c3]], THEN conjunct1])
  have p4: "place_info (\<lambda>c. False) acme_listing =
     no_result\<lparr>nr_homepage := Some (lit ''http://acme.kr''),
       nr_email := Some (lit ''sales@acme.kr'')\<rparr>"
    by (rule t [THEN conjunct2, THEN conjunct2, THEN conjunct2, THEN conjunct1, THEN mp,
          OF conjI [OF d1 conjI [OF d2 d3]], THEN conjunct1])
  have i: "place_interrupted (\<lambda>c. False) stale_phone_listing = False"
    by (simp add: place_interrupted_def a1)
  have p5: "search_naver_place (\<lambda>c. False) \<lparr>driver = Some stale_driver, trace = []\<rparr>
       (lit ''acme'') =
     (Returns (place_info (\<lambda>c. False) stale_phone_listing),
      \<lparr>driver = Some stale_driver,
       trace = [Invoke_search (lit ''acme''), Navigate (search_url (lit ''acme''))]\<rparr>)"
    using t [THEN conjunct2, THEN conjunct2, THEN conjunct2, THEN conjunct2, THEN mp,
          OF stale_navigate]
    by (simp only: i if_False)
  from a1 p1 b1 b2 p2 c1 c2 c3 p3 d1 d2 d3 p4 p5 show ?thesis
    by (intro conjI)
qed

subsection \<open>The homepage link\<close>

text \<open>A link the loop passes over: its \<open>href\<close> was read, and is empty or names a portal.\<close>

definition skipped :: "element \<Rightarrow> bool" where
  "skipped e =
     (case elem_href e of
        Raises \<Rightarrow> False
      | Interrupts \<Rightarrow> False
      | Returns h \<Rightarrow> \<not> (truthy h \<and> portal_free (the h)))"

text \<open>
  For comparison, the rule in the words of the specification: the host of a link target
  (between \<open>://\<close> and the next \<open>/\<close>, \<open>?\<close>, \<open>#\<close> or \<open>:\<close>) is the portal's or the search
  engine's when it ends in their domain, and the homepage is the first link whose host is
  neither.
\<close>

fun after_scheme :: "pystr \<Rightarrow> pystr" where
  "after_scheme [] = []"
| "after_scheme (c # cs) =
     (if prefix (lit ''://'') (c # cs) then drop 3 (c # cs) else after_scheme cs)"

definition spec_host :: "pystr \<Rightarrow> pystr" where
  "spec_host url = takeWhile (\<lambda>c. c \<noteq> 47 \<and> c \<noteq> 63 \<and> c \<noteq> 35 \<and> c \<noteq> 58) (after_scheme url)"

definition spec_portal_host :: "pystr \<Rightarrow> bool" where
  "spec_portal_host h = (suffix (lit ''naver.com'') h \<or> suffix (lit ''google.com'') h)"

definition spec_homepage :: "pystr list \<Rightarrow> pystr option" where
  "spec_homepage hrefs = List.find (\<lambda>h. \<not> spec_portal_host (spec_host h)) hrefs"

definition referral_listing :: page where
  "referral_listing =
     \<lparr>phone_elements = Returns [],
      homepage_elements =
        Returns [link_to ''http://example.kr/?ref=naver.com'', link_to ''http://other.kr''],
      contact_links = Returns [],
      page_source = Returns (lit ''<html></html>'')\<rparr>"

lemma first_homepage_found:
  "first_homepage elems = Returns (Some href) \<Longrightarrow>
   \<exists>pre e post. elems = pre @ e # post \<and> elem_href e = Returns (Some href) \<and> href \<noteq> [] \<and>
     portal_free href \<and> (\<forall>e'\<in>set pre. skipped e')"
proof (induction elems)
  case Nil
  then show ?case by simp
next
  case (Cons a elems)
  show ?case
  proof (cases "elem_href a")
    case Raises
    with Cons.prems show ?thesis by simp
  next
    case Interrupts
    with Cons.prems show ?thesis by simp
  next
    case (Returns h)
    show ?thesis
    proof (cases "truthy h \<and> portal_free (the h)")
      case True
      with Returns Cons.prems have "h = Some href" by simp
      with True Returns have "a # elems = [] @ a # elems \<and> elem_href a = Returns (Some href) \<and>
          href \<noteq> [] \<and> portal_free href \<and> (\<forall>e'\<in>set []. skipped e')"
        by (simp add: truthy_def)
      then show ?thesis by blast
    next
      case False
      with Returns Cons.prems have "first_homepage elems = Returns (Some href)" by simp
      from Cons.IH [OF this] obtain pre e post where
        d: "elems = pre @ e # post" "elem_href e = Returns (Some href)" "href \<noteq> []"
          "portal_free href" "\<forall>e'\<in>set pre. skipped e'"
        by blast
      from False Returns have "skipped a" by (simp add: skipped_def)
      with d have "a # elems = (a # pre) @ e # post \<and> elem_href e = Returns (Some href) \<and>
          href \<noteq> [] \<and> portal_free href \<and> (\<forall>e'\<in>set (a # pre). skipped e')"
        by simp
      then show ?thesis by blast
    qed
  qed
qed

lemma first_homepage_skips:
  "\<forall>e'\<in>set pre. skipped e' \<Longrightarrow> first_homepage (pre @ rest) = first_homepage rest"
  by (induction pre) (auto simp: skipped_def split: outcome.splits)

lemma first_homepage_none:
  "first_homepage elems = Returns None \<longleftrightarrow> (\<forall>e\<in>set elems. skipped e)"
  by (induction elems) (auto simp: skipped_def truthy_def split: outcome.splits option.splits)

text \<open>
  Claim C7, as amended. The homepage is the \<open>href\<close> of the first link, in document order,
  whose \<open>href\<close> is not empty and holds neither \<open>naver.com\<close> nor \<open>google.com\<close> anywhere in
  the whole URL (path and query included, not only the host); it is \<open>None\<close> when every link
  is passed over. This is the homepage field of the stage whenever the phone lookup before
  it did not raise.
\<close>

theorem first_homepage_first_portal_free:
  "(first_homepage elems = Returns (Some href) \<longleftrightarrow>
      (\<exists>pre e post. elems = pre @ e # post \<and> elem_href e = Returns (Some href) \<and> href \<noteq> [] \<and>
         portal_free href \<and> (\<forall>e'\<in>set pre. skipped e'))) \<and>
   (first_homepage elems = Returns None \<longleftrightarrow> (\<forall>e\<in>set elems. skipped e)) \<and>
   (phone_step p no_result = Returns r1 \<and> homepage_elements p = Returns elems \<and>
    first_homepage elems = Returns found \<longrightarrow>
      nr_homepage (place_info alnum p) = found)"
proof (intro conjI impI iffI)
  assume "first_homepage elems = Returns (Some href)"
  then show "\<exists>pre e post. elems = pre @ e # post \<and> elem_href e = Returns (Some href) \<and>
      href \<noteq> [] \<and> portal_free href \<and> (\<forall>e'\<in>set pre. skipped e')"
    by (rule first_homepage_found)
next
  assume "\<exists>pre e post. elems = pre @ e # post \<and> elem_href e = Returns (Some href) \<and>
      href \<noteq> [] \<and> portal_free href \<and> (\<forall>e'\<in>set pre. skipped e')"
  then obtain pre e post where
    d: "elems = pre @ e # post" "elem_href e = Returns (Some href)" "href \<noteq> []"
      "portal_free href" "\<forall>e'\<in>set pre. skipped e'"
    by blast
  have "first_homepage elems = first_homepage (e # post)"
    using d(1) first_homepage_skips [OF d(5)] by simp
  also have "\<dots> = Returns (Some href)"
    using d(2,3,4) by (simp add: truthy_def)
  finally show "first_homepage elems = Returns (Some href)" .
next
  assume "first_homepage elems = Returns None"
  then show "\<forall>e\<in>set elems. skipped e"
    by (simp add: first_homepage_none)
next
  assume "\<forall>e\<in>set elems. skipped e"
  then show "first_homepage elems = Returns None"
    by (simp add: first_homepage_none)
next
  assume a: "phone_step p no_result = Returns r1 \<and> homepage_elements p = Returns elems \<and>
    first_homepage elems = Returns found"
  from a phone_step_keeps [of p no_result r1] have k: "nr_homepage r1 = None"
    by (simp add: no_result_def)
  from a k obtain r2 where h: "homepage_step p r1 = Returns r2" "nr_homepage r2 = found"
    by (cases found) (simp_all add: homepage_step_def)
  show "nr_homepage (place_info alnum p) = found"
  proof (cases "email_step alnum p r2")
    case Raises
    with a h show ?thesis by (simp add: place_info_def)
  next
    case Interrupts
    with a h show ?thesis by (simp add: place_info_def)
  next
    case (Returns r3)
    with a h email_step_keeps [OF Returns] show ?thesis by (simp add: place_info_def)
  qed
qed

lemma referral_not_portal_free: "\<not> portal_free (lit ''http://example.kr/?ref=naver.com'')"
  unfolding portal_free_def by code_simp

lemma other_portal_free: "portal_free (lit ''http://other.kr'')"
  unfolding portal_free_def by code_simp

lemma referral_host: "spec_host (lit ''http://example.kr/?ref=naver.com'') = lit ''example.kr''"
  by code_simp

lemma referral_spec_homepage:
  "spec_homepage [lit ''http://example.kr/?ref=naver.com'', lit ''http://other.kr''] =
     Some (lit ''http://example.kr/?ref=naver.com'')"
  by code_simp

lemma referral_first_homepage:
  "first_homepage [link_to ''http://example.kr/?ref=naver.com'', link_to ''http://other.kr''] =
     Returns (Some (lit ''http://other.kr''))"
  by (simp add: link_to_def truthy_def referral_not_portal_free other_portal_free)
     (simp add: lit_def)

theorem homepage_by_host_counterexample:
  "spec_host (lit ''http://example.kr/?ref=naver.com'') = lit ''example.kr'' \<and>
   spec_homepage [lit ''http://example.kr/?ref=naver.com'', lit ''http://other.kr''] =
     Some (lit ''http://example.kr/?ref=naver.com'') \<and>
   first_homepage [link_to ''http://example.kr/?ref=naver.com'', link_to ''http://other.kr''] =
     Returns (Some (lit ''http://other.kr'')) \<and>
   nr_homepage (place_info (\<lambda>c. False) referral_listing) = Some (lit ''http://other.kr'')"
proof -
  have "nr_homepage (place_info (\<lambda>c. False) referral_listing) = Some (lit ''http://other.kr'')"
    by (simp add: place_info_def phone_step_def homepage_step_def email_step_def
        referral_listing_def referral_first_homepage blank_findall valid_emails_def no_result_def
        del: first_homepage.simps)
  with referral_host referral_spec_homepage referral_first_homepage show ?thesis
    by (intro conjI)
qed

theorem first_homepage_first_portal_free_witness:
  "skipped (link_to ''http://example.kr/?ref=naver.com'') \<and>
   elem_href (link_to ''http://other.kr'') = Returns (Some (lit ''http://other.kr'')) \<and>
   lit ''http://other.kr'' \<noteq> [] \<and> portal_free (lit ''http://other.kr'') \<and>
   first_homepage [link_to ''http://example.kr/?ref=naver.com'', link_to ''http://other.kr''] =
     Returns (Some (lit ''http://other.kr'')) \<and>
   first_homepage [link_to ''http://example.kr/?ref=naver.com''] = Returns None \<and>
   phone_step referral_listing no_result = Returns no_result \<and>
   homepage_elements referral_listing =
     Returns [link_to ''http://example.kr/?ref=naver.com'', link_to ''http://other.kr''] \<and>
   nr_homepage (place_info (\<lambda>c. False) referral_listing) = Some (lit ''http://other.kr'')"
proof -
  let ?l1 = "link_to ''http://example.kr/?ref=naver.com''"
  let ?l2 = "link_to ''http://other.kr''"
  have s: "skipped ?l1"
    by (simp add: skipped_def link_to_def truthy_def referral_not_portal_free)
  have h: "elem_href ?l2 = Returns (Some (lit ''http://other.kr''))"
    by (simp add: link_to_def)
  have n: "lit ''http://other.kr'' \<noteq> []"
    by (simp add: lit_def)
  have ex: "\<exists>pre e post. [?l1, ?l2] = pre @ e # post \<and>
      elem_href e = Returns (Some (lit ''http://other.kr'')) \<and> lit ''http://other.kr'' \<noteq> [] \<and>
      portal_free (lit ''http://other.kr'') \<and> (\<forall>e'\<in>set pre. skipped e')"
  proof (intro exI conjI)
    show "[?l1, ?l2] = [?l1] @ ?l2 # []" by simp
    show "elem_href ?l2 = Returns (Some (lit ''http://other.kr''))" by (rule h)
    show "lit ''http://other.kr'' \<noteq> []" by (rule n)
    show "portal_free (lit ''http://other.kr'')" by (rule other_portal_free)
    show "\<forall>e'\<in>set [?l1]. skipped e'" using s by simp
  qed
  have a: "\<forall>e\<in>set [?l1]. skipped e"
    using s by simp
  have p: "phone_step referral_listing no_result = Returns no_result"
    by (simp add: phone_step_def referral_listing_def)
  have e: "homepage_elements referral_listing = Returns [?l1, ?l2]"
    by (simp add: referral_listing_def)
  note th = first_homepage_first_portal_free
  have f1: "first_homepage [?l1, ?l2] = Returns (Some (lit ''http://other.kr''))"
    by (rule th [THEN conjunct1, THEN iffD2, OF ex])
  have f2: "first_homepage [?l1] = Returns None"
    by (rule th [THEN conjunct2, THEN conjunct1, THEN iffD2, OF a])
  have f3: "nr_homepage (place_info (\<lambda>c. False) referral_listing) = Some (lit ''http://other.kr'')"
    by (rule th [THEN conjunct2, THEN conjunct2, THEN mp, OF conjI [OF p conjI [OF e f1]]])
  from s h n other_portal_free f1 f2 p e f3 show ?thesis
    by (intro conjI)
qed

subsection \<open>The excluded addresses\<close>

text \<open>
  For comparison, the filter in the words of the specification: the domain of an address is
  what follows its \<open>@\<close>, and an address is excluded when its domain ends in the portal's or
  the search engine's domain.
\<close>

definition spec_domain :: "pystr \<Rightarrow> pystr" where
  "spec_domain e = drop 1 (dropWhile (\<lambda>c. c \<noteq> 64) e)"

definition spec_excluded :: "pystr \<Rightarrow> bool" where
  "spec_excluded e =
     (suffix (lit ''naver.com'') (spec_domain e) \<or> suffix (lit ''google.com'') (spec_domain e))"

definition spec_valid_emails :: "pystr list \<Rightarrow> pystr list" where
  "spec_valid_emails emails = filter (\<lambda>e. \<not> spec_excluded e) emails"

definition company_listing :: page where
  "company_listing =
     \<lparr>phone_elements = Returns [], homepage_elements = Returns [], contact_links = Returns [],
      page_source = Returns (lit ''<p>ceo@naver.company.kr</p>'')\<rparr>"

definition portal_listing :: page where
  "portal_listing =
     \<lparr>phone_elements = Returns [], homepage_elements = Returns [], contact_links = Returns [],
      page_source = Returns (lit ''<p>help@naver.com sales@acme.kr</p>'')\<rparr>"

lemma spec_domain_suffix: "suffix (spec_domain e) e"
  unfolding spec_domain_def
  by (rule suffix_order.trans [OF suffix_drop suffix_dropWhile])

lemma spec_excluded_not_portal_free: "spec_excluded e \<Longrightarrow> \<not> portal_free e"
proof -
  assume "spec_excluded e"
  then consider "suffix (lit ''naver.com'') (spec_domain e)"
    | "suffix (lit ''google.com'') (spec_domain e)"
    by (auto simp: spec_excluded_def)
  then show "\<not> portal_free e"
  proof cases
    case 1
    then have "suffix (lit ''naver.com'') e"
      by (rule suffix_order.trans [OF _ spec_domain_suffix])
    then show ?thesis by (simp add: portal_free_def suffix_imp_sublist)
  next
    case 2
    then have "suffix (lit ''google.com'') e"
      by (rule suffix_order.trans [OF _ spec_domain_suffix])
    then show ?thesis by (simp add: portal_free_def suffix_imp_sublist)
  qed
qed

text \<open>
  Claim C6, as amended. The filter keeps an address exactly when neither \<open>naver.com\<close> nor
  \<open>google.com\<close> occurs anywhere in it as a substring (local part included, upper and lower
  case distinguished), and keeps the order of the addresses. So every address whose
  domain ends in one of the two domains is removed, and the email of the stage is the first
  address of the page source that is kept.
\<close>

theorem valid_emails_by_substring:
  "(e \<in> set (valid_emails emails) \<longleftrightarrow>
      e \<in> set emails \<and> \<not> sublist (lit ''naver.com'') e \<and> \<not> sublist (lit ''google.com'') e) \<and>
   subseq (valid_emails emails) emails \<and>
   (spec_excluded e \<longrightarrow> e \<notin> set (valid_emails emails)) \<and>
   (page_source p = Returns src \<and> valid_emails (findall alnum src) = first # others \<longrightarrow>
      email_step alnum p result = Returns (result\<lparr>nr_email := Some first\<rparr>)) \<and>
   (page_source p = Returns src \<and> valid_emails (findall alnum src) = [] \<longrightarrow>
      email_step alnum p result = Returns result)"
proof (intro conjI impI)
  show "e \<in> set (valid_emails emails) \<longleftrightarrow>
      e \<in> set emails \<and> \<not> sublist (lit ''naver.com'') e \<and> \<not> sublist (lit ''google.com'') e"
    by (simp add: valid_emails_def portal_free_def)
  show "subseq (valid_emails emails) emails"
    by (simp add: valid_emails_def)
next
  assume "spec_excluded e"
  then show "e \<notin> set (valid_emails emails)"
    by (simp add: valid_emails_def spec_excluded_not_portal_free)
next
  assume "page_source p = Returns src \<and> valid_emails (findall alnum src) = first # others"
  then show "email_step alnum p result = Returns (result\<lparr>nr_email := Some first\<rparr>)"
    by (simp add: email_step_def)
next
  assume "page_source p = Returns src \<and> valid_emails (findall alnum src) = []"
  then show "email_step alnum p result = Returns result"
    by (simp add: email_step_def)
qed

lemma company_findall:
  "findall alnum (lit ''<p>ceo@naver.company.kr</p>'') = [lit ''ceo@naver.company.kr'']"
  by code_simp

lemma company_spec_domain: "spec_domain (lit ''ceo@naver.company.kr'') = lit ''naver.company.kr''"
  by code_simp

lemma company_not_spec_excluded: "\<not> spec_excluded (lit ''ceo@naver.company.kr'')"
  by code_simp

lemma company_not_portal_free: "\<not> portal_free (lit ''ceo@naver.company.kr'')"
  unfolding portal_free_def by code_simp

lemma portal_findall:
  "findall alnum (lit ''<p>help@naver.com sales@acme.kr</p>'') =
     [lit ''help@naver.com'', lit ''sales@acme.kr'']"
  by code_simp

lemma help_spec_excluded: "spec_excluded (lit ''help@naver.com'')"
  by code_simp

theorem exclusion_by_domain_suffix_counterexample:
  "findall (\<lambda>c. False) (lit ''<p>ceo@naver.company.kr</p>'') = [lit ''ceo@naver.company.kr''] \<and>
   spec_domain (lit ''ceo@naver.company.kr'') = lit ''naver.company.kr'' \<and>
   spec_valid_emails [lit ''ceo@naver.company.kr''] = [lit ''ceo@naver.company.kr''] \<and>
   valid_emails [lit ''ceo@naver.company.kr''] = [] \<and>
   nr_email (place_info (\<lambda>c. False) company_listing) = None"
proof -
  have a: "spec_valid_emails [lit ''ceo@naver.company.kr''] = [lit ''ceo@naver.company.kr'']"
    by (simp add: spec_valid_emails_def company_not_spec_excluded)
  have b: "valid_emails [lit ''ceo@naver.company.kr''] = []"
    by (simp add: valid_emails_def company_not_portal_free)
  have c: "nr_email (place_info (\<lambda>c. False) company_listing) = None"
    by (simp add: place_info_def phone_step_def homepage_step_def email_step_def
        company_listing_def company_findall b no_result_def)
  from company_findall [of "\<lambda>c. False"] company_spec_domain a b c show ?thesis
    by (intro conjI)
qed

theorem valid_emails_by_substring_witness:
  "spec_excluded (lit ''help@naver.com'') \<and>
   lit ''help@naver.com'' \<notin> set (valid_emails [lit ''help@naver.com'', lit ''sales@acme.kr'']) \<and>
   page_source portal_listing = Returns (lit ''<p>help@naver.com sales@acme.kr</p>'') \<and>
   valid_emails (findall (\<lambda>c. False) (lit ''<p>help@naver.com sales@acme.kr</p>'')) =
     [lit ''sales@acme.kr''] \<and>
   email_step (\<lambda>c. False) portal_listing no_result =
     Returns (no_result\<lparr>nr_email := Some (lit ''sales@acme.kr'')\<rparr>) \<and>
   page_source company_listing = Returns (lit ''<p>ceo@naver.company.kr</p>'') \<and>
   valid_emails (findall (\<lambda>c. False) (lit ''<p>ceo@naver.company.kr</p>'')) = [] \<and>
   email_step (\<lambda>c. False) company_listing no_result = Returns no_result"
proof -
  note th = valid_emails_by_substring [where alnum = "\<lambda>c. False"]
  have a: "lit ''help@naver.com'' \<notin> set (valid_emails [lit ''help@naver.com'', lit ''sales@acme.kr''])"
    by (rule th [THEN conjunct2, THEN conjunct2, THEN conjunct1, THEN mp, OF help_spec_excluded])
  have s1: "page_source portal_listing = Returns (lit ''<p>help@naver.com sales@acme.kr</p>'')"
    by (simp add: portal_listing_def)
  have h: "\<not> portal_free (lit ''help@naver.com'')"
    by (rule spec_excluded_not_portal_free [OF help_spec_excluded])
  have v1: "valid_emails (findall (\<lambda>c. False) (lit ''<p>help@naver.com sales@acme.kr</p>'')) =
     [lit ''sales@acme.kr'']"
    by (simp add: portal_findall valid_emails_def h acme_portal_free)
  have e1: "email_step (\<lambda>c. False) portal_listing no_result =
     Returns (no_result\<lparr>nr_email := Some (lit ''sales@acme.kr'')\<rparr>)"
    by (rule th [THEN conjunct2, THEN conjunct2, THEN conjunct2, THEN conjunct1, THEN mp,
          OF conjI [OF s1 v1]])
  have s2: "page_source company_listing = Returns (lit ''<p>ceo@naver.company.kr</p>'')"
    by (simp add: company_listing_def)
  have v2: "valid_emails (findall (\<lambda>c. False) (lit ''<p>ceo@naver.company.kr</p>'')) = []"
    by (simp add: company_findall valid_emails_def company_not_portal_free)
  have e2: "email_step (\<lambda>c. False) company_listing no_result = Returns no_result"
    by (rule th [THEN conjunct2, THEN conjunct2, THEN conjunct2, THEN conjunct2, THEN mp,
          OF conjI [OF s2 v2]])
  from help_spec_excluded a s1 v1 e1 s2 v2 e2 show ?thesis
    by (intro conjI)
qed

section \<open>Properties of the choice among candidates\<close>

text \<open>
  For comparison, the choice in the words of the specification: a keyword is looked for in
  the local part of a candidate, the part before its \<open>@\<close>.
\<close>

definition spec_local_part :: "pystr \<Rightarrow> pystr" where
  "spec_local_part e = takeWhile (\<lambda>c. c \<noteq> 64) e"

fun spec_by_priority :: "pystr list \<Rightarrow> pystr list \<Rightarrow> pystr option" where
  "spec_by_priority [] emails = None"
| "spec_by_priority (keyword # keywords) emails =
     (case List.find (\<lambda>e. sublist keyword (lower (spec_local_part e))) emails of
        Some e \<Rightarrow> Some e
      | None \<Rightarrow> spec_by_priority keywords emails)"

definition spec_pick_best :: "pystr list \<Rightarrow> pystr list \<Rightarrow> pystr option" where
  "spec_pick_best emails keywords =
     (case spec_by_priority keywords emails of
        Some e \<Rightarrow> Some e
      | None \<Rightarrow> (case emails of [] \<Rightarrow> None | e # _ \<Rightarrow> Some e))"

lemma first_with_none:
  "first_with keyword emails = None \<longleftrightarrow> (\<forall>e\<in>set emails. \<not> sublist keyword (lower e))"
  by (induction emails) auto

lemma first_with_found:
  "\<forall>e'\<in>set pre. \<not> sublist keyword (lower e') \<Longrightarrow> sublist keyword (lower e) \<Longrightarrow>
   first_with keyword (pre @ e # post) = Some e"
  by (induction pre) auto

lemma by_priority_skip:
  "\<forall>k\<in>set ks. first_with k emails = None \<Longrightarrow>
   by_priority (ks @ rest) emails = by_priority rest emails"
  by (induction ks) auto

lemma by_priority_none:
  "\<forall>k\<in>set ks. first_with k emails = None \<Longrightarrow> by_priority ks emails = None"
  using by_priority_skip [of ks emails "[]"] by simp

text \<open>
  Claim C3, as amended. The keywords are tried in their order. For each keyword the
  candidates are tried in their order, and the first candidate whose whole lower-cased
  address (local part, \<open>@\<close> and domain) holds the keyword as a substring is returned. So the
  result is the first such candidate of the first keyword that any candidate holds; when no
  candidate holds any keyword it is the first candidate, or \<open>None\<close> for no candidates. The
  example of the claim holds, through the domain of \<open>boss@ceo.com\<close>.
\<close>

theorem pick_best_by_whole_address:
  "(i < length keywords \<and>
    (\<forall>k\<in>set (take i keywords). \<forall>e'\<in>set emails. \<not> sublist k (lower e')) \<and>
    emails = pre @ e # post \<and> sublist (keywords ! i) (lower e) \<and>
    (\<forall>e'\<in>set pre. \<not> sublist (keywords ! i) (lower e')) \<longrightarrow>
      pick_best emails keywords = Some e) \<and>
   ((\<forall>k\<in>set keywords. \<forall>e'\<in>set emails. \<not> sublist k (lower e')) \<longrightarrow>
      pick_best emails keywords = (case emails of [] \<Rightarrow> None | first # _ \<Rightarrow> Some first)) \<and>
   pick_best [lit ''zzz@info.co'', lit ''boss@ceo.com''] [lit ''ceo'', lit ''info''] =
     Some (lit ''boss@ceo.com'')"
proof (intro conjI impI)
  assume a: "i < length keywords \<and>
    (\<forall>k\<in>set (take i keywords). \<forall>e'\<in>set emails. \<not> sublist k (lower e')) \<and>
    emails = pre @ e # post \<and> sublist (keywords ! i) (lower e) \<and>
    (\<forall>e'\<in>set pre. \<not> sublist (keywords ! i) (lower e'))"
  then have k: "keywords = take i keywords @ keywords ! i # drop (Suc i) keywords"
    by (simp add: id_take_nth_drop)
  from a have "\<forall>k\<in>set (take i keywords). first_with k emails = None"
    by (simp add: first_with_none)
  then have "by_priority (take i keywords @ keywords ! i # drop (Suc i) keywords) emails =
      by_priority (keywords ! i # drop (Suc i) keywords) emails"
    by (rule by_priority_skip)
  with k have "by_priority keywords emails =
      by_priority (keywords ! i # drop (Suc i) keywords) emails"
    by simp
  moreover from a have "first_with (keywords ! i) emails = Some e"
    by (simp add: first_with_found)
  ultimately have "by_priority keywords emails = Some e"
    by simp
  then show "pick_best emails keywords = Some e"
    by (simp add: pick_best_def)
next
  assume "\<forall>k\<in>set keywords. \<forall>e'\<in>set emails. \<not> sublist k (lower e')"
  then have "\<forall>k\<in>set keywords. first_with k emails = None"
    by (simp add: first_with_none)
  then have "by_priority keywords emails = None"
    by (rule by_priority_none)
  then show "pick_best emails keywords = (case emails of [] \<Rightarrow> None | first # _ \<Rightarrow> Some first)"
    by (simp add: pick_best_def)
next
  show "pick_best [lit ''zzz@info.co'', lit ''boss@ceo.com''] [lit ''ceo'', lit ''info''] =
     Some (lit ''boss@ceo.com'')"
    by code_simp
qed

lemma infotech_pick:
  "pick_best [lit ''sales@acme.kr'', lit ''dev@infotech.kr''] priority_keywords =
     Some (lit ''dev@infotech.kr'')"
  by code_simp

lemma infotech_spec_pick:
  "spec_pick_best [lit ''sales@acme.kr'', lit ''dev@infotech.kr''] priority_keywords =
     Some (lit ''sales@acme.kr'')"
  by code_simp

lemma boss_spec_pick:
  "spec_pick_best [lit ''zzz@info.co'', lit ''boss@ceo.com''] [lit ''ceo'', lit ''info''] =
     Some (lit ''zzz@info.co'')"
  by code_simp

lemma boss_local_part: "spec_local_part (lit ''boss@ceo.com'') = lit ''boss''"
  by code_simp

lemma boss_not_in_local: "\<not> sublist (lit ''ceo'') (lower (spec_local_part (lit ''boss@ceo.com'')))"
  by code_simp

theorem pick_best_local_part_counterexample:
  "pick_best [lit ''sales@acme.kr'', lit ''dev@infotech.kr''] priority_keywords =
     Some (lit ''dev@infotech.kr'') \<and>
   spec_pick_best [lit ''sales@acme.kr'', lit ''dev@infotech.kr''] priority_keywords =
     Some (lit ''sales@acme.kr'') \<and>
   spec_local_part (lit ''boss@ceo.com'') = lit ''boss'' \<and>
   \<not> sublist (lit ''ceo'') (lower (spec_local_part (lit ''boss@ceo.com''))) \<and>
   pick_best [lit ''zzz@info.co'', lit ''boss@ceo.com''] [lit ''ceo'', lit ''info''] =
     Some (lit ''boss@ceo.com'') \<and>
   spec_pick_best [lit ''zzz@info.co'', lit ''boss@ceo.com''] [lit ''ceo'', lit ''info''] =
     Some (lit ''zzz@info.co'')"
proof -
  have "pick_best [lit ''zzz@info.co'', lit ''boss@ceo.com''] [lit ''ceo'', lit ''info''] =
     Some (lit ''boss@ceo.com'')"
    by code_simp
  with infotech_pick infotech_spec_pick boss_local_part boss_not_in_local boss_spec_pick
  show ?thesis
    by (intro conjI)
qed

lemma ceo_in_boss: "sublist (lit ''ceo'') (lower (lit ''boss@ceo.com''))"
  by code_simp

lemma ceo_not_in_zzz: "\<not> sublist (lit ''ceo'') (lower (lit ''zzz@info.co''))"
  by code_simp

lemma ceo_not_in_a: "\<not> sublist (lit ''ceo'') (lower (lit ''a@x.com''))"
  by code_simp

lemma ceo_not_in_b: "\<not> sublist (lit ''ceo'') (lower (lit ''b@y.com''))"
  by code_simp

theorem pick_best_by_whole_address_witness:
  "sublist (lit ''ceo'') (lower (lit ''boss@ceo.com'')) \<and>
   \<not> sublist (lit ''ceo'') (lower (lit ''zzz@info.co'')) \<and>
   pick_best ([lit ''zzz@info.co''] @ lit ''boss@ceo.com'' # []) [lit ''ceo'', lit ''info''] =
     Some (lit ''boss@ceo.com'') \<and>
   \<not> sublist (lit ''ceo'') (lower (lit ''a@x.com'')) \<and>
   \<not> sublist (lit ''ceo'') (lower (lit ''b@y.com'')) \<and>
   pick_best [lit ''a@x.com'', lit ''b@y.com''] [lit ''ceo''] = Some (lit ''a@x.com'')"
proof -
  note th = pick_best_by_whole_address
  have h1: "0 < length [lit ''ceo'', lit ''info''] \<and>
    (\<forall>k\<in>set (take 0 [lit ''ceo'', lit ''info'']).
       \<forall>e'\<in>set ([lit ''zzz@info.co''] @ lit ''boss@ceo.com'' # []). \<not> sublist k (lower e')) \<and>
    [lit ''zzz@info.co''] @ lit ''boss@ceo.com'' # [] =
      [lit ''zzz@info.co''] @ lit ''boss@ceo.com'' # [] \<and>
    sublist ([lit ''ceo'', lit ''info''] ! 0) (lower (lit ''boss@ceo.com'')) \<and>
    (\<forall>e'\<in>set [lit ''zzz@info.co'']. \<not> sublist ([lit ''ceo'', lit ''info''] ! 0) (lower e'))"
    using ceo_in_boss ceo_not_in_zzz by simp
  have r1: "pick_best ([lit ''zzz@info.co''] @ lit ''boss@ceo.com'' # []) [lit ''ceo'', lit ''info''] =
     Some (lit ''boss@ceo.com'')"
    by (rule th [THEN conjunct1, THEN mp, OF h1])
  have h2: "\<forall>k\<in>set [lit ''ceo'']. \<forall>e'\<in>set [lit ''a@x.com'', lit ''b@y.com'']. \<not> sublist k (lower e')"
    using ceo_not_in_a ceo_not_in_b by simp
  have "pick_best [lit ''a@x.com'', lit ''b@y.com''] [lit ''ceo''] =
      (case [lit ''a@x.com'', lit ''b@y.com''] of [] \<Rightarrow> None | first # _ \<Rightarrow> Some first)"
    by (rule th [THEN conjunct2, THEN conjunct1, THEN mp, OF h2])
  then have r2: "pick_best [lit ''a@x.com'', lit ''b@y.com''] [lit ''ceo''] = Some (lit ''a@x.com'')"
    by simp
  from ceo_in_boss ceo_not_in_zzz r1 ceo_not_in_a ceo_not_in_b r2 show ?thesis
    by (intro conjI)
qed

section \<open>Properties of the email pattern\<close>

lemma run_bound: "0 < run cls s p \<Longrightarrow> p + run cls s p \<le> length s"
proof -
  assume a: "0 < run cls s p"
  have "run cls s p \<le> length (drop p s)"
    unfolding run_def by (rule length_takeWhile_le)
  with a show ?thesis by simp
qed

lemma tld_match_end:
  "tld_match alnum s p (run tld_char s p) = Some e \<Longrightarrow> e \<le> length s"
proof -
  assume a: "tld_match alnum s p (run tld_char s p) = Some e"
  from tld_match_bounds [OF a] have "0 < run tld_char s p" "e \<le> p + run tld_char s p"
    by simp_all
  with run_bound [of tld_char s p] show ?thesis by simp
qed

lemma domain_match_end: "domain_match alnum s p k = Some e \<Longrightarrow> e \<le> length s"
  by (induction k) (auto split: if_splits option.splits dest: tld_match_end)

lemma local_match_end: "local_match alnum s p n = Some e \<Longrightarrow> e \<le> length s"
  by (induction n) (auto split: if_splits option.splits dest: domain_match_end)

lemma match_at_end: "match_at alnum s p = Some e \<Longrightarrow> e \<le> length s"
  by (auto simp: match_at_def split: if_splits dest: local_match_end)

lemma finditer_spans:
  "(\<forall>(i, j)\<in>set (finditer alnum s p).
      p \<le> i \<and> i < j \<and> j \<le> length s \<and> match_at alnum s i = Some j) \<and>
   sorted_wrt (\<lambda>a b. snd a \<le> fst b) (finditer alnum s p)"
proof (induction alnum s p rule: finditer.induct)
  case (1 alnum s p)
  show ?case
  proof (cases "length s \<le> p")
    case True
    then have "finditer alnum s p = []"
      by (simp add: finditer.simps [of alnum s p])
    then show ?thesis by simp
  next
    case False
    show ?thesis
    proof (cases "match_at alnum s p")
      case None
      with False have eq: "finditer alnum s p = finditer alnum s (p + 1)"
        by (simp add: finditer.simps [of alnum s p])
      from "1.IH"(1) [OF False None] show ?thesis
        unfolding eq by auto
    next
      case (Some e)
      with False have eq: "finditer alnum s p = (p, e) # finditer alnum s e"
        by (simp add: finditer.simps [of alnum s p])
      from match_at_bounds [OF Some] match_at_end [OF Some] have b: "p < e" "e \<le> length s"
        by simp_all
      from "1.IH"(2) [OF False Some] b Some show ?thesis
        unfolding eq by auto
    qed
  qed
qed

lemma finditer_complete:
  "p \<le> q \<Longrightarrow> match_at alnum s q = Some e \<Longrightarrow>
   (q, e) \<in> set (finditer alnum s p) \<or>
   (\<exists>i j. (i, j) \<in> set (finditer alnum s p) \<and> i < q \<and> q < j)"
proof (induction alnum s p rule: finditer.induct)
  case (1 alnum s p)
  from match_at_bounds [OF "1.prems"(2)] match_at_end [OF "1.prems"(2)] have q: "q < length s"
    by simp
  with "1.prems"(1) have False: "\<not> length s \<le> p"
    by simp
  show ?case
  proof (cases "match_at alnum s p")
    case None
    with False have eq: "finditer alnum s p = finditer alnum s (p + 1)"
      by (simp add: finditer.simps [of alnum s p])
    from None "1.prems" have "p \<noteq> q"
      by auto
    with "1.prems"(1) have "p + 1 \<le> q"
      by simp
    from "1.IH"(1) [OF False None this "1.prems"(2)] show ?thesis
      unfolding eq .
  next
    case (Some e')
    with False have eq: "finditer alnum s p = (p, e') # finditer alnum s e'"
      by (simp add: finditer.simps [of alnum s p])
    show ?thesis
    proof (cases "q < e'")
      case True
      show ?thesis
      proof (cases "p = q")
        case True
        with Some "1.prems"(2) have "e' = e"
          by simp
        with True show ?thesis
          unfolding eq by simp
      next
        case ne: False
        with "1.prems"(1) have "p < q"
          by simp
        with True have "(p, e') \<in> set ((p, e') # finditer alnum s e') \<and> p < q \<and> q < e'"
          by simp
        then show ?thesis
          unfolding eq by blast
      qed
    next
      case ge: False
      then have "e' \<le> q"
        by simp
      from "1.IH"(2) [OF False Some this "1.prems"(2)] show ?thesis
        unfolding eq by auto
    qed
  qed
qed

text \<open>
  Claim C5, as amended. The candidates are the matched substrings of the spans that a scan
  from the left finds, and nothing is removed from them:
  \<^item> the spans are in the order of the text and do not overlap (each starts at or after
    the end of the one before);
  \<^item> every span is a match of the pattern at its start and lies inside the text;
  \<^item> no match is left out: wherever the pattern matches, that match is one of the spans,
    or it starts inside a span that started before it.

  So the candidates come in the order of their places in the text, one for every such
  match, and an address that is matched twice is listed twice.
\<close>

theorem findall_in_text_order:
  "findall alnum s = map (slice s) (finditer alnum s 0) \<and>
   sorted_wrt (\<lambda>a b. snd a \<le> fst b) (finditer alnum s 0) \<and>
   (\<forall>(i, j)\<in>set (finditer alnum s 0). i < j \<and> j \<le> length s \<and> match_at alnum s i = Some j) \<and>
   (\<forall>q e. match_at alnum s q = Some e \<longrightarrow>
      (q, e) \<in> set (finditer alnum s 0) \<or>
      (\<exists>i j. (i, j) \<in> set (finditer alnum s 0) \<and> i < q \<and> q < j))"
proof (intro conjI allI impI)
  show "findall alnum s = map (slice s) (finditer alnum s 0)"
    by (simp add: findall_def)
  show "sorted_wrt (\<lambda>a b. snd a \<le> fst b) (finditer alnum s 0)"
    by (rule finditer_spans [of alnum s 0, THEN conjunct2])
  show "\<forall>(i, j)\<in>set (finditer alnum s 0). i < j \<and> j \<le> length s \<and> match_at alnum s i = Some j"
    using finditer_spans [of alnum s 0, THEN conjunct1] by auto
next
  fix q e
  assume "match_at alnum s q = Some e"
  then show "(q, e) \<in> set (finditer alnum s 0) \<or>
      (\<exists>i j. (i, j) \<in> set (finditer alnum s 0) \<and> i < q \<and> q < j)"
    by (rule finditer_complete [OF le0])
qed

lemma twice_finditer: "finditer alnum (lit ''a@b.co a@b.co'') 0 = [(0, 6), (7, 13)]"
  by code_simp

lemma twice_findall: "findall alnum (lit ''a@b.co a@b.co'') = [lit ''a@b.co'', lit ''a@b.co'']"
  by code_simp

lemma twice_match: "match_at alnum (lit ''a@b.co a@b.co'') 7 = Some 13"
  by code_simp

lemma inner_finditer: "finditer alnum (lit ''a.b@c.de'') 0 = [(0, 8)]"
  by code_simp

lemma inner_match: "match_at alnum (lit ''a.b@c.de'') 2 = Some 8"
  by code_simp

theorem findall_duplicates_counterexample:
  "findall (\<lambda>c. False) (lit ''a@b.co a@b.co'') = [lit ''a@b.co'', lit ''a@b.co''] \<and>
   \<not> distinct (findall (\<lambda>c. False) (lit ''a@b.co a@b.co''))"
  by (simp add: twice_findall)

theorem findall_in_text_order_witness:
  "finditer (\<lambda>c. False) (lit ''a@b.co a@b.co'') 0 = [(0, 6), (7, 13)] \<and>
   findall (\<lambda>c. False) (lit ''a@b.co a@b.co'') =
     map (slice (lit ''a@b.co a@b.co'')) [(0, 6), (7, 13)] \<and>
   (6::nat) \<le> length (lit ''a@b.co a@b.co'') \<and>
   match_at (\<lambda>c. False) (lit ''a@b.co a@b.co'') 0 = Some 6 \<and>
   (13::nat) \<le> length (lit ''a@b.co a@b.co'') \<and>
   match_at (\<lambda>c. False) (lit ''a@b.co a@b.co'') 7 = Some 13 \<and>
   ((7, 13) \<in> set (finditer (\<lambda>c. False) (lit ''a@b.co a@b.co'') 0) \<or>
    (\<exists>i j. (i, j) \<in> set (finditer (\<lambda>c. False) (lit ''a@b.co a@b.co'') 0) \<and> i < 7 \<and> 7 < j)) \<and>
   finditer (\<lambda>c. False) (lit ''a.b@c.de'') 0 = [(0, 8)] \<and>
   match_at (\<lambda>c. False) (lit ''a.b@c.de'') 2 = Some 8 \<and>
   (\<exists>i j. (i, j) \<in> set (finditer (\<lambda>c. False) (lit ''a.b@c.de'') 0) \<and> i < 2 \<and> 2 < j)"
proof -
  note th = findall_in_text_order [of "\<lambda>c. False" "lit ''a@b.co a@b.co''"]
  note f = twice_finditer [of "\<lambda>c. False"]
  have a: "findall (\<lambda>c. False) (lit ''a@b.co a@b.co'') =
     map (slice (lit ''a@b.co a@b.co'')) [(0, 6), (7, 13)]"
    using th [THEN conjunct1] by (simp only: f)
  have m1: "(0, 6) \<in> set (finditer (\<lambda>c. False) (lit ''a@b.co a@b.co'') 0)"
    by (simp add: f)
  have m2: "(7, 13) \<in> set (finditer (\<lambda>c. False) (lit ''a@b.co a@b.co'') 0)"
    by (simp add: f)
  from th [THEN conjunct2, THEN conjunct2, THEN conjunct1, THEN bspec, OF m1]
  have b1: "(6::nat) \<le> length (lit ''a@b.co a@b.co'')"
    and c1: "match_at (\<lambda>c. False) (lit ''a@b.co a@b.co'') 0 = Some 6"
    by simp_all
  from th [THEN conjunct2, THEN conjunct2, THEN conjunct1, THEN bspec, OF m2]
  have b2: "(13::nat) \<le> length (lit ''a@b.co a@b.co'')"
    and c2: "match_at (\<lambda>c. False) (lit ''a@b.co a@b.co'') 7 = Some 13"
    by simp_all
  have d: "(7, 13) \<in> set (finditer (\<lambda>c. False) (lit ''a@b.co a@b.co'') 0) \<or>
    (\<exists>i j. (i, j) \<in> set (finditer (\<lambda>c. False) (lit ''a@b.co a@b.co'') 0) \<and> i < 7 \<and> 7 < j)"
    by (rule th [THEN conjunct2, THEN conjunct2, THEN conjunct2, THEN spec, THEN spec,
          THEN mp, OF twice_match])
  note g = inner_finditer [of "\<lambda>c. False"]
  have n: "(2, 8) \<notin> set (finditer (\<lambda>c. False) (lit ''a.b@c.de'') 0)"
    by (simp add: g)
  have "(2, 8) \<in> set (finditer (\<lambda>c. False) (lit ''a.b@c.de'') 0) \<or>
    (\<exists>i j. (i, j) \<in> set (finditer (\<lambda>c. False) (lit ''a.b@c.de'') 0) \<and> i < 2 \<and> 2 < j)"
    by (rule findall_in_text_order [of "\<lambda>c. False" "lit ''a.b@c.de''", THEN conjunct2,
          THEN conjunct2, THEN conjunct2, THEN spec, THEN spec, THEN mp, OF inner_match])
  with n have e: "\<exists>i j. (i, j) \<in> set (finditer (\<lambda>c. False) (lit ''a.b@c.de'') 0) \<and>
      i < 2 \<and> 2 < j"
    by blast
  from f a b1 c1 b2 c2 d g inner_match e show ?thesis
    by (intro conjI)
qed

subsection \<open>The shape of a match\<close>

text \<open>
  For comparison, the grammar in the words of the specification: a local part of one or
  more characters of the first class, an \<open>@\<close>, and a domain that holds a dot and ends, after
  its last dot, in two or more letters.
\<close>

definition letter_char :: "nat \<Rightarrow> bool" where
  "letter_char c = (upper_char c \<or> lower_char c)"

definition spec_email_grammar :: "pystr \<Rightarrow> bool" where
  "spec_email_grammar e =
     (let local_part = takeWhile local_char e;
          domain = drop (length local_part + 1) e;
          tld = rev (takeWhile (\<lambda>c. c \<noteq> 46) (rev domain))
      in local_part \<noteq> [] \<and> char_at e (length local_part) = Some 64 \<and> 46 \<in> set domain \<and>
         2 \<le> length tld \<and> list_all letter_char tld)"

lemma run_class: "i < run cls s p \<Longrightarrow> p + i < length s \<and> cls (s ! (p + i))"
proof -
  assume a: "i < run cls s p"
  then have i: "i < length (takeWhile cls (drop p s))"
    by (simp add: run_def)
  have "length (takeWhile cls (drop p s)) \<le> length (drop p s)"
    by (rule length_takeWhile_le)
  with i have b: "p + i < length s"
    by simp
  from i have "takeWhile cls (drop p s) ! i \<in> set (takeWhile cls (drop p s))"
    by (rule nth_mem)
  then have "cls (takeWhile cls (drop p s) ! i)"
    by (rule set_takeWhileD [THEN conjunct2])
  with i have "cls (drop p s ! i)"
    by (simp add: takeWhile_nth)
  with b show ?thesis
    by simp
qed

lemma tld_match_shape:
  "tld_match alnum s p j = Some e \<Longrightarrow> \<exists>j'. 2 \<le> j' \<and> j' \<le> j \<and> e = p + j'"
  by (induction j) (auto split: if_splits intro: le_SucI)

lemma domain_match_shape:
  "domain_match alnum s p k = Some e \<Longrightarrow>
   \<exists>k' j'. 1 \<le> k' \<and> k' \<le> k \<and> char_at s (p + k') = Some 46 \<and>
     2 \<le> j' \<and> j' \<le> run tld_char s (p + k' + 1) \<and> e = p + k' + 1 + j'"
proof (induction k)
  case 0
  then show ?case by simp
next
  case (Suc k)
  show ?case
  proof (cases "char_at s (p + Suc k) = Some 46 \<and>
      tld_match alnum s (p + Suc k + 1) (run tld_char s (p + Suc k + 1)) = Some e")
    case True
    then obtain j' where "2 \<le> j'" "j' \<le> run tld_char s (p + Suc k + 1)" "e = p + Suc k + 1 + j'"
      using tld_match_shape by blast
    with True have "1 \<le> Suc k \<and> Suc k \<le> Suc k \<and> char_at s (p + Suc k) = Some 46 \<and>
        2 \<le> j' \<and> j' \<le> run tld_char s (p + Suc k + 1) \<and> e = p + Suc k + 1 + j'"
      by simp
    then show ?thesis by blast
  next
    case False
    with Suc.prems have "domain_match alnum s p k = Some e"
      by (auto split: if_splits option.splits)
    from Suc.IH [OF this] obtain k' j' where
      "1 \<le> k'" "k' \<le> k" "char_at s (p + k') = Some 46" "2 \<le> j'"
      "j' \<le> run tld_char s (p + k' + 1)" "e = p + k' + 1 + j'"
      by blast
    then have "1 \<le> k' \<and> k' \<le> Suc k \<and> char_at s (p + k') = Some 46 \<and>
        2 \<le> j' \<and> j' \<le> run tld_char s (p + k' + 1) \<and> e = p + k' + 1 + j'"
      by simp
    then show ?thesis by blast
  qed
qed

lemma local_match_shape:
  "local_match alnum s p n = Some e \<Longrightarrow>
   \<exists>n'. 1 \<le> n' \<and> n' \<le> n \<and> char_at s (p + n') = Some 64 \<and>
     domain_match alnum s (p + n' + 1) (run domain_char s (p + n' + 1)) = Some e"
proof (induction n)
  case 0
  then show ?case by simp
next
  case (Suc n)
  show ?case
  proof (cases "char_at s (p + Suc n) = Some 64 \<and>
      domain_match alnum s (p + Suc n + 1) (run domain_char s (p + Suc n + 1)) = Some e")
    case True
    then have "1 \<le> Suc n \<and> Suc n \<le> Suc n \<and> char_at s (p + Suc n) = Some 64 \<and>
        domain_match alnum s (p + Suc n + 1) (run domain_char s (p + Suc n + 1)) = Some e"
      by simp
    then show ?thesis by blast
  next
    case False
    with Suc.prems have "local_match alnum s p n = Some e"
      by (auto split: if_splits option.splits)
    from Suc.IH [OF this] obtain n' where
      "1 \<le> n'" "n' \<le> n" "char_at s (p + n') = Some 64"
      "domain_match alnum s (p + n' + 1) (run domain_char s (p + n' + 1)) = Some e"
      by blast
    then have "1 \<le> n' \<and> n' \<le> Suc n \<and> char_at s (p + n') = Some 64 \<and>
        domain_match alnum s (p + n' + 1) (run domain_char s (p + n' + 1)) = Some e"
      by simp
    then show ?thesis by blast
  qed
qed

text \<open>
  What the pattern does guarantee of a match from \<open>p\<close> to \<open>e\<close>: \<open>n\<close> characters of the first
  class, an \<open>@\<close>, \<open>k\<close> characters of the second class, a dot, and \<open>j\<close> characters of the
  third class, which holds the bar beside the letters.
\<close>

lemma match_at_shape:
  assumes "match_at alnum s p = Some e"
  shows "\<exists>n k j. 1 \<le> n \<and> 1 \<le> k \<and> 2 \<le> j \<and> e = p + n + 1 + k + 1 + j \<and> e \<le> length s \<and>
     (\<forall>i<n. local_char (s ! (p + i))) \<and> s ! (p + n) = 64 \<and>
     (\<forall>i<k. domain_char (s ! (p + n + 1 + i))) \<and> s ! (p + n + 1 + k) = 46 \<and>
     (\<forall>i<j. tld_char (s ! (p + n + 1 + k + 1 + i)))"
proof -
  from assms have l: "local_match alnum s p (run local_char s p) = Some e"
    by (simp add: match_at_def split: if_splits)
  from local_match_shape [OF l] obtain n where
    n: "1 \<le> n" "n \<le> run local_char s p" "char_at s (p + n) = Some 64"
      "domain_match alnum s (p + n + 1) (run domain_char s (p + n + 1)) = Some e"
    by blast
  from domain_match_shape [OF n(4)] obtain k j where
    k: "1 \<le> k" "k \<le> run domain_char s (p + n + 1)" "char_at s (p + n + 1 + k) = Some 46"
      "2 \<le> j" "j \<le> run tld_char s (p + n + 1 + k + 1)" "e = p + n + 1 + k + 1 + j"
    by blast
  have c1: "\<forall>i<n. local_char (s ! (p + i))"
    using n(2) run_class [of _ local_char s p] by auto
  have c2: "\<forall>i<k. domain_char (s ! (p + n + 1 + i))"
    using k(2) run_class [of _ domain_char s "p + n + 1"] by auto
  have c3: "\<forall>i<j. tld_char (s ! (p + n + 1 + k + 1 + i))"
    using k(5) run_class [of _ tld_char s "p + n + 1 + k + 1"] by auto
  from n(3) have a1: "s ! (p + n) = 64"
    by (simp add: char_at_def split: if_splits)
  from k(3) have a2: "s ! (p + n + 1 + k) = 46"
    by (simp add: char_at_def split: if_splits)
  from match_at_end [OF assms] have "e \<le> length s" .
  with n(1) k(1,4,6) c1 c2 c3 a1 a2
  have "1 \<le> n \<and> 1 \<le> k \<and> 2 \<le> j \<and> e = p + n + 1 + k + 1 + j \<and> e \<le> length s \<and>
     (\<forall>i<n. local_char (s ! (p + i))) \<and> s ! (p + n) = 64 \<and>
     (\<forall>i<k. domain_char (s ! (p + n + 1 + i))) \<and> s ! (p + n + 1 + k) = 46 \<and>
     (\<forall>i<j. tld_char (s ! (p + n + 1 + k + 1 + i)))"
    by simp
  then show ?thesis by blast
qed


text \<open>
  The same in the form of a grammar: a string is a match when it is \<open>l @ d . t\<close> with \<open>l\<close> and
  \<open>d\<close> not empty and \<open>t\<close> of two or more characters, each part in its class.
\<close>

definition pattern_grammar :: "pystr \<Rightarrow> bool" where
  "pattern_grammar e =
     (\<exists>l d t. e = l @ 64 # d @ 46 # t \<and>
        l \<noteq> [] \<and> list_all local_char l \<and> d \<noteq> [] \<and> list_all domain_char d \<and>
        2 \<le> length t \<and> list_all tld_char t)"

lemma take_class:
  "p + n \<le> length s \<Longrightarrow> \<forall>i<n. cls (s ! (p + i)) \<Longrightarrow> list_all cls (take n (drop p s))"
  by (simp add: list_all_length)

lemma take_Cons_drop:
  "p < length s \<Longrightarrow> take (Suc m) (drop p s) = s ! p # take m (drop (Suc p) s)"
  by (simp add: Cons_nth_drop_Suc [symmetric])

lemma take_split:
  "take (n + m) (drop p s) = take n (drop p s) @ take m (drop (p + n) s)"
proof -
  have "drop n (drop p s) = drop (p + n) s"
    by (simp add: add.commute)
  with take_add [of n m "drop p s"] show ?thesis
    by (simp only:)
qed

lemma slice_shape:
  assumes "match_at alnum s p = Some e"
  shows "pattern_grammar (slice s (p, e))"
proof -
  from match_at_shape [OF assms] obtain n k j where
    h: "1 \<le> n" "1 \<le> k" "2 \<le> j" "e = p + n + 1 + k + 1 + j" "e \<le> length s"
      "\<forall>i<n. local_char (s ! (p + i))" "s ! (p + n) = 64"
      "\<forall>i<k. domain_char (s ! (p + n + 1 + i))" "s ! (p + n + 1 + k) = 46"
      "\<forall>i<j. tld_char (s ! (p + n + 1 + k + 1 + i))"
    by blast
  let ?l = "take n (drop p s)"
  let ?d = "take k (drop (Suc (p + n)) s)"
  let ?t = "take j (drop (Suc (Suc (p + n) + k)) s)"
  have a: "s ! (p + n) = 64" "s ! (Suc (p + n) + k) = 46"
    using h(7,9) by simp_all
  have b: "p + n < length s" "Suc (p + n) + k < length s"
    using h(4,5) by simp_all
  have 1: "slice s (p, e) = take (n + Suc (k + Suc j)) (drop p s)"
    using h(4) by (simp add: slice_def)
  have 2: "take (n + Suc (k + Suc j)) (drop p s) = ?l @ take (Suc (k + Suc j)) (drop (p + n) s)"
    by (rule take_split)
  have 3: "take (Suc (k + Suc j)) (drop (p + n) s) =
      s ! (p + n) # take (k + Suc j) (drop (Suc (p + n)) s)"
    by (rule take_Cons_drop [OF b(1)])
  have 4: "take (k + Suc j) (drop (Suc (p + n)) s) =
      ?d @ take (Suc j) (drop (Suc (p + n) + k) s)"
    by (rule take_split)
  have 5: "take (Suc j) (drop (Suc (p + n) + k) s) = s ! (Suc (p + n) + k) # ?t"
    by (rule take_Cons_drop [OF b(2)])
  have eq: "slice s (p, e) = ?l @ 64 # ?d @ 46 # ?t"
    by (simp only: 1 2 3 4 5 a)
  have l: "?l \<noteq> []" "list_all local_char ?l"
    using h(1,4,5,6) by (simp_all add: list_all_length)
  have d: "?d \<noteq> []" "list_all domain_char ?d"
    using h(2,4,5,8) by (simp_all add: list_all_length)
  have t: "2 \<le> length ?t" "list_all tld_char ?t"
    using h(3,4,5,10) by (simp_all add: list_all_length)
  from eq l d t show ?thesis
    unfolding pattern_grammar_def by blast
qed

lemma findall_shape: "e \<in> set (findall alnum s) \<Longrightarrow> pattern_grammar e"
proof -
  assume "e \<in> set (findall alnum s)"
  then obtain i j where m: "(i, j) \<in> set (finditer alnum s 0)" and e: "e = slice s (i, j)"
    by (auto simp: findall_def)
  from finditer_spans [of alnum s 0, THEN conjunct1] m have "match_at alnum s i = Some j"
    by auto
  from slice_shape [OF this] e show ?thesis
    by simp
qed

lemma class_ascii:
  "local_char c \<Longrightarrow> c < 128" "domain_char c \<Longrightarrow> c < 128" "tld_char c \<Longrightarrow> c < 128"
  by (auto simp: local_char_def domain_char_def tld_char_def upper_char_def lower_char_def
      digit_char_def)

lemma findall_ascii: "e \<in> set (findall alnum s) \<Longrightarrow> c \<in> set e \<Longrightarrow> c < 128"
proof -
  assume "e \<in> set (findall alnum s)" and c: "c \<in> set e"
  from findall_shape [OF this(1)] obtain l d t where
    "e = l @ 64 # d @ 46 # t" "list_all local_char l" "list_all domain_char d"
    "list_all tld_char t"
    unfolding pattern_grammar_def by blast
  with c class_ascii [of c] show ?thesis
    by (auto simp: list_all_iff)
qed


text \<open>
  A match with no bar in it is an address of the specification's grammar.
\<close>

lemma pattern_grammar_spec:
  assumes "pattern_grammar e" and "124 \<notin> set e"
  shows "spec_email_grammar e"
proof -
  from assms(1) obtain l d t where
    h: "e = l @ 64 # d @ 46 # t" "l \<noteq> []" "list_all local_char l" "2 \<le> length t"
      "list_all tld_char t"
    unfolding pattern_grammar_def by blast
  have at: "\<not> local_char 64"
    by (simp add: local_char_def upper_char_def lower_char_def digit_char_def)
  from h(3) have "takeWhile local_char (l @ 64 # d @ 46 # t) =
      l @ takeWhile local_char (64 # d @ 46 # t)"
    by (intro takeWhile_append2) (simp add: list_all_iff)
  with at h(1) have lp: "takeWhile local_char e = l"
    by simp
  have dom: "drop (Suc (length l)) e = d @ 46 # t"
    using h(1) by simp
  have ch: "char_at e (length l) = Some 64"
    using h(1) by (simp add: char_at_def)
  from h(5) have nd: "\<And>c. c \<in> set (rev t) \<Longrightarrow> c \<noteq> 46"
    by (auto simp: list_all_iff tld_char_def upper_char_def lower_char_def)
  have "takeWhile (\<lambda>c. c \<noteq> 46) (rev t @ 46 # rev d) =
      rev t @ takeWhile (\<lambda>c. c \<noteq> 46) (46 # rev d)"
    by (rule takeWhile_append2) (rule nd)
  then have tl: "takeWhile (\<lambda>c. c \<noteq> 46) (rev t @ 46 # rev d) = rev t"
    by simp
  from h(5) assms(2) h(1) have le: "list_all letter_char t"
    by (auto simp: list_all_iff tld_char_def letter_char_def)
  from h(2,4) le ch show ?thesis
    by (simp add: spec_email_grammar_def Let_def lp dom tl)
qed

lemma bar_findall: "findall alnum (lit ''a@b.c|d'') = [lit ''a@b.c|d'']"
  by code_simp

lemma bar_not_spec: "\<not> spec_email_grammar (lit ''a@b.c|d'')"
  by code_simp

text \<open>
  Claim C4. Every string the extraction returns is of the pattern's grammar, and is of the
  specification's grammar when it holds no bar. The specification's grammar itself fails:
  from the text \<open>a@b.c|d\<close> the extraction returns \<open>a@b.c|d\<close>, whose last label \<open>c|d\<close> is
  not made of letters only.
\<close>

theorem findall_grammar_admits_bar:
  "(\<forall>e\<in>set (findall alnum s).
      pattern_grammar e \<and> (124 \<notin> set e \<longrightarrow> spec_email_grammar e)) \<and>
   findall alnum (lit ''a@b.c|d'') = [lit ''a@b.c|d''] \<and>
   \<not> spec_email_grammar (lit ''a@b.c|d'')"
proof (intro conjI ballI impI)
  fix e
  assume e: "e \<in> set (findall alnum s)"
  then show g: "pattern_grammar e"
    by (rule findall_shape)
  assume "124 \<notin> set e"
  with g show "spec_email_grammar e"
    by (rule pattern_grammar_spec)
next
  show "findall alnum (lit ''a@b.c|d'') = [lit ''a@b.c|d'']"
    by (rule bar_findall)
  show "\<not> spec_email_grammar (lit ''a@b.c|d'')"
    by (rule bar_not_spec)
qed

lemma acme_no_bar: "124 \<notin> set (lit ''sales@acme.kr'')"
  by (simp add: lit_def)

theorem findall_grammar_admits_bar_witness:
  "lit ''sales@acme.kr'' \<in> set (findall (\<lambda>c. False) (lit ''<p>sales@acme.kr</p>'')) \<and>
   pattern_grammar (lit ''sales@acme.kr'') \<and>
   124 \<notin> set (lit ''sales@acme.kr'') \<and>
   spec_email_grammar (lit ''sales@acme.kr'') \<and>
   lit ''a@b.c|d'' \<in> set (findall (\<lambda>c. False) (lit ''a@b.c|d'')) \<and>
   pattern_grammar (lit ''a@b.c|d'')"
proof -
  have m: "lit ''sales@acme.kr'' \<in> set (findall (\<lambda>c. False) (lit ''<p>sales@acme.kr</p>''))"
    by (simp add: acme_findall)
  note th = findall_grammar_admits_bar [of "\<lambda>c. False" "lit ''<p>sales@acme.kr</p>''",
      THEN conjunct1, THEN bspec, OF m]
  have g: "pattern_grammar (lit ''sales@acme.kr'')"
    by (rule th [THEN conjunct1])
  have k: "spec_email_grammar (lit ''sales@acme.kr'')"
    by (rule th [THEN conjunct2, THEN mp, OF acme_no_bar])
  have b: "lit ''a@b.c|d'' \<in> set (findall (\<lambda>c. False) (lit ''a@b.c|d''))"
    by (simp add: bar_findall)
  have h: "pattern_grammar (lit ''a@b.c|d'')"
    by (rule findall_grammar_admits_bar [of "\<lambda>c. False" "lit ''a@b.c|d''",
          THEN conjunct1, THEN bspec, OF b, THEN conjunct1])
  from m g acme_no_bar k b h show ?thesis
    by (intro conjI)
qed

end
